theory Spec2Isabelle
  imports Complex_Main "HOL-Library.Sublist" "HOL-Library.Char_ord" "HOL-Library.List_Lexorder"
begin

section \<open>Exceptions, messages and personas\<close>

text \<open>
  The exceptions the source can raise, each carrying the text that \<open>str(e)\<close> is built
  from. \<open>RequestError\<close> stands for whatever the HTTP layer raises (connection errors,
  \<open>raise_for_status\<close>, malformed JSON).
\<close>

datatype py_error = KeyError string | IndexError string | ValueError string | RequestError string

fun exn_str :: "py_error \<Rightarrow> string" where
  "exn_str (KeyError k) = [CHR 0x27] @ k @ [CHR 0x27]"
| "exn_str (IndexError m) = m"
| "exn_str (ValueError m) = m"
| "exn_str (RequestError m) = m"

datatype msg_class = AIMessage | HumanMessage | SystemMessage

record message =
  msg_class :: msg_class
  msg_name :: "string option"
  msg_content :: string

record Traveler =
  name :: string
  description :: string

definition persona :: "Traveler \<Rightarrow> string" where
  "persona t = ''Name: '' @ name t @ [CHR 0x0A] @ ''Description: '' @ description t @ [CHR 0x0A]"

section \<open>Weather records\<close>

text \<open>
  One entry of the \<open>weather\<close> list: the dictionary with the keys \<open>date\<close>, \<open>summary\<close>,
  \<open>temp_max\<close>, \<open>temp_min\<close>, \<open>pop_max\<close>, or the dictionary with the single key
  \<open>error\<close>. Numbers are kept abstract (\<open>'n\<close>, linearly ordered): the code only compares
  them and hands them to the builtin \<open>round\<close>.
\<close>

datatype 'n weather_entry =
    DayForecast (date: string) (summary: string) (temp_max: 'n) (temp_min: 'n) (pop_max: 'n)
  | ErrorMarker (error: string)

text \<open>
  One element of the forecast service's \<open>list\<close>: \<open>item["dt_txt"]\<close>,
  \<open>item["main"]["temp"]\<close>, \<open>item["weather"][0]["description"]\<close> and the optional
  \<open>item.get("pop", 0.0)\<close>.
\<close>

record 'n sample =
  dt_txt :: string
  main_temp :: 'n
  weather_description :: string
  pop :: "'n option"

record 'n day_rec =
  temps :: "'n list"
  descs :: "string list"
  pops :: "'n list"

section \<open>The states of the two graphs\<close>

text \<open>
  Both states are Python dictionaries whose keys may be absent, so every plain key is an
  \<open>option\<close>. The channels of the interview state that carry a reducer (\<open>messages\<close>,
  \<open>context\<close>, \<open>sections\<close>) start as the empty list.
\<close>

record dialogueState =
  messages :: "message list"
  max_num_turns :: "int option"
  ds_context :: "string list"
  traveler :: "Traveler option"
  dialogue :: "string option"
  ds_sections :: "string list"
  ds_city :: "string option"

record dialogue_update =
  du_messages :: "message list option"
  du_max_num_turns :: "int option"
  du_context :: "string list option"
  du_traveler :: "Traveler option"
  du_dialogue :: "string option"
  du_sections :: "string list option"
  du_city :: "string option"

definition no_dialogue_update :: dialogue_update where
  "no_dialogue_update =
     \<lparr>du_messages = None, du_max_num_turns = None, du_context = None, du_traveler = None,
      du_dialogue = None, du_sections = None, du_city = None\<rparr>"

record 'n TravelGraphState =
  city :: "string option"
  weather :: "'n weather_entry list option"
  days :: "int option"
  max_travelers :: "int option"
  human_feedback_traveler :: "string option"
  human_feedback_plan :: "string option"
  travelers :: "Traveler list option"
  sections :: "string list option"
  content :: "string option"
  final_plan :: "string option"

record 'n graph_update =
  up_city :: "string option"
  up_weather :: "'n weather_entry list option"
  up_days :: "int option"
  up_max_travelers :: "int option"
  up_human_feedback_traveler :: "string option"
  up_human_feedback_plan :: "string option"
  up_travelers :: "Traveler list option"
  up_sections :: "string list option"
  up_content :: "string option"
  up_final_plan :: "string option"

definition no_update :: "'n graph_update" where
  "no_update =
     \<lparr>up_city = None, up_weather = None, up_days = None, up_max_travelers = None,
      up_human_feedback_traveler = None, up_human_feedback_plan = None, up_travelers = None,
      up_sections = None, up_content = None, up_final_plan = None\<rparr>"

section \<open>The collaborators\<close>

text \<open>
  Everything the program reaches outside itself, as one record of functions: the
  environment variable, the two HTTP services, the language model behind each prompt,
  the two retrieval tools and \<open>get_buffer_string\<close>. Two builtins whose result the
  language leaves to the runtime are here too: \<open>round\<close> on a number, and the order in
  which a \<open>set\<close> of strings is iterated (\<open>set_iter xs\<close> is the iteration of \<open>set(xs)\<close>).
  The prompt templates are folded into the model functions, which receive the values
  the templates are formatted with.
\<close>

record 'n env =
  OPENWEATHER_KEY :: string
  nominatim :: "string \<Rightarrow> py_error + (string \<times> string) list"
  py_float :: "string \<Rightarrow> py_error + 'n"
  forecast :: "'n \<Rightarrow> 'n \<Rightarrow> py_error + 'n sample list"
  py_round :: "'n \<Rightarrow> nat \<Rightarrow> 'n"
  set_iter :: "string list \<Rightarrow> string list"
  travelers_llm :: "string \<Rightarrow> 'n weather_entry list \<Rightarrow> int \<Rightarrow> string \<Rightarrow> int \<Rightarrow> Traveler list"
  question_llm :: "string \<Rightarrow> message list \<Rightarrow> string"
  query_llm :: "message list \<Rightarrow> string"
  tavily :: "string \<Rightarrow> (string \<times> string) list"
  wikipedia :: "string \<Rightarrow> (string \<times> string \<times> string) list"
  answer_llm :: "string \<Rightarrow> string \<Rightarrow> string list \<Rightarrow> message list \<Rightarrow> string"
  get_buffer_string :: "message list \<Rightarrow> string"
  section_llm :: "string \<Rightarrow> string \<Rightarrow> string list \<Rightarrow> string"
  plan_llm :: "string \<Rightarrow> int \<Rightarrow> 'n weather_entry list \<Rightarrow> string \<Rightarrow> string \<Rightarrow> string"

definition valid_iter :: "(string list \<Rightarrow> string list) \<Rightarrow> bool" where
  "valid_iter it = (\<forall>xs. distinct (it xs) \<and> set (it xs) = set xs)"

section \<open>State Store\<close>

text \<open>
  Modelled from the spec: the merge of a node's partial update into the state is done by
  the graph library, which is not among the sources; the sources only declare the
  reducers (\<open>Annotated[list, operator.add]\<close> and the message channel of
  \<open>MessagesState\<close>). Following section 4.1 of the specification, a scalar field present in
  the update replaces the stored one, an append-only sequence field is concatenated onto
  the stored sequence, and a field absent from the update is left as it is.
\<close>

definition replace_field :: "'a option \<Rightarrow> 'a option \<Rightarrow> 'a option" where
  "replace_field old upd = (case upd of None \<Rightarrow> old | Some v \<Rightarrow> Some v)"

definition append_field :: "'a list \<Rightarrow> 'a list option \<Rightarrow> 'a list" where
  "append_field old upd = (case upd of None \<Rightarrow> old | Some xs \<Rightarrow> old @ xs)"

definition merge_dialogue :: "dialogueState \<Rightarrow> dialogue_update \<Rightarrow> dialogueState" where
  "merge_dialogue s u =
     \<lparr>messages = append_field (messages s) (du_messages u),
      max_num_turns = replace_field (max_num_turns s) (du_max_num_turns u),
      ds_context = append_field (ds_context s) (du_context u),
      traveler = replace_field (traveler s) (du_traveler u),
      dialogue = replace_field (dialogue s) (du_dialogue u),
      ds_sections = append_field (ds_sections s) (du_sections u),
      ds_city = replace_field (ds_city s) (du_city u)\<rparr>"

section \<open>Interview sub-workflow: the nodes\<close>

fun py_join :: "string \<Rightarrow> string list \<Rightarrow> string" where
  "py_join sep [] = []"
| "py_join sep [x] = x"
| "py_join sep (x # y # ys) = x @ sep @ py_join sep (y # ys)"

definition doc_separator :: string where
  "doc_separator = [CHR 0x0A, CHR 0x0A] @ ''---'' @ [CHR 0x0A, CHR 0x0A]"

definition generate_question :: "'n env \<Rightarrow> dialogueState \<Rightarrow> py_error + dialogue_update" where
  "generate_question env state =
     (case traveler state of
        None \<Rightarrow> Inl (KeyError ''traveler'')
      | Some t \<Rightarrow>
          Inr (no_dialogue_update
                \<lparr>du_messages :=
                   Some [\<lparr>msg_class = AIMessage, msg_name = None,
                          msg_content = question_llm env (persona t) (messages state)\<rparr>]\<rparr>))"

definition search_web :: "'n env \<Rightarrow> dialogueState \<Rightarrow> dialogue_update" where
  "search_web env state =
     (let search_docs = tavily env (query_llm env (messages state));
          formatted_search_docs =
            py_join doc_separator
              (map (\<lambda>(url, c). ''<Document href='' @ [CHR 0x22] @ url @ [CHR 0x22] @ ''/>''
                       @ [CHR 0x0A] @ c @ [CHR 0x0A] @ ''</Document>'') search_docs)
      in no_dialogue_update\<lparr>du_context := Some [formatted_search_docs]\<rparr>)"

definition search_wikipedia :: "'n env \<Rightarrow> dialogueState \<Rightarrow> dialogue_update" where
  "search_wikipedia env state =
     (let search_docs = wikipedia env (query_llm env (messages state));
          formatted_search_docs =
            py_join doc_separator
              (map (\<lambda>(src, page, c). ''<Document source='' @ [CHR 0x22] @ src @ [CHR 0x22]
                       @ '' page='' @ [CHR 0x22] @ page @ [CHR 0x22] @ ''/>''
                       @ [CHR 0x0A] @ c @ [CHR 0x0A] @ ''</Document>'') search_docs)
      in no_dialogue_update\<lparr>du_context := Some [formatted_search_docs]\<rparr>)"

definition generate_answer :: "'n env \<Rightarrow> dialogueState \<Rightarrow> py_error + dialogue_update" where
  "generate_answer env state =
     (case traveler state of
        None \<Rightarrow> Inl (KeyError ''traveler'')
      | Some t \<Rightarrow>
          (case ds_city state of
             None \<Rightarrow> Inl (KeyError ''city'')
           | Some c \<Rightarrow>
               Inr (no_dialogue_update
                     \<lparr>du_messages :=
                        Some [\<lparr>msg_class = AIMessage, msg_name = Some ''local'',
                               msg_content =
                                 answer_llm env c (persona t) (ds_context state) (messages state)\<rparr>]\<rparr>)))"

definition save_dialogue :: "'n env \<Rightarrow> dialogueState \<Rightarrow> py_error + dialogue_update" where
  "save_dialogue env state =
     (case traveler state of
        None \<Rightarrow> Inl (KeyError ''traveler'')
      | Some t \<Rightarrow>
          Inr (no_dialogue_update\<lparr>du_dialogue := Some (get_buffer_string env (messages state))\<rparr>))"

definition closing_phrase :: string where
  "closing_phrase = ''Thank you so much for your help''"

definition num_responses :: "message list \<Rightarrow> string \<Rightarrow> nat" where
  "num_responses msgs nm =
     length (filter (\<lambda>m. msg_class m = AIMessage \<and> msg_name m = Some nm) msgs)"

definition effective_max :: "dialogueState \<Rightarrow> int" where
  "effective_max state = (case max_num_turns state of None \<Rightarrow> 2 | Some m \<Rightarrow> m)"

text \<open>
  \<open>route_messages\<close>: \<open>messages[-2]\<close> raises \<open>IndexError\<close> on a conversation of fewer
  than two messages; it is read only when the count is below the maximum.
\<close>

definition route_messages :: "dialogueState \<Rightarrow> string \<Rightarrow> py_error + string" where
  "route_messages state nm =
     (let msgs = messages state;
          mx = effective_max state
      in if mx \<le> int (num_responses msgs nm) then Inr ''save_dialogue''
         else if length msgs < 2 then Inl (IndexError ''list index out of range'')
         else if sublist closing_phrase (msg_content (msgs ! (length msgs - 2)))
              then Inr ''save_dialogue''
         else Inr ''ask_question'')"

definition write_section :: "'n env \<Rightarrow> dialogueState \<Rightarrow> py_error + dialogue_update" where
  "write_section env state =
     (case dialogue state of
        None \<Rightarrow> Inl (KeyError ''dialogue'')
      | Some d \<Rightarrow>
          (case traveler state of
             None \<Rightarrow> Inl (KeyError ''traveler'')
           | Some t \<Rightarrow>
               Inr (no_dialogue_update
                     \<lparr>du_sections := Some [section_llm env (persona t) d (ds_context state)]\<rparr>)))"

section \<open>Interview sub-workflow: the graph\<close>

text \<open>
  The edges of \<open>dialogue_builder\<close>. \<open>ask_question\<close> has two outgoing edges, to the two
  retrieval nodes, and both lead to \<open>answer_question\<close>; the conditional edge after
  \<open>answer_question\<close> is \<open>route_messages\<close>.
\<close>

definition START :: string where "START = ''__start__''"
definition END :: string where "END = ''__end__''"

definition dialogue_edges :: "(string \<times> string) list" where
  "dialogue_edges =
     [(START, ''ask_question''),
      (''ask_question'', ''search_web''),
      (''ask_question'', ''search_wikipedia''),
      (''search_web'', ''answer_question''),
      (''search_wikipedia'', ''answer_question''),
      (''save_dialogue'', ''write_section''),
      (''write_section'', END)]"

text \<open>
  Modelled from the spec: the engine that walks these edges is the graph library.
  Following sections 4.3 and 4.4, one pass of the cycle runs \<open>ask_question\<close>, then the
  two retrieval nodes on the state \<open>ask_question\<close> left (their updates merged one after
  the other), then \<open>answer_question\<close> once both have finished; every update reaches the
  state through the merge.
\<close>

definition turn_trace :: "string list" where
  "turn_trace = [''ask_question'', ''search_web'', ''search_wikipedia'', ''answer_question'']"

definition turn :: "'n env \<Rightarrow> dialogueState \<Rightarrow> py_error + dialogueState" where
  "turn env s =
     (case generate_question env s of
        Inl e \<Rightarrow> Inl e
      | Inr u1 \<Rightarrow>
          (let s1 = merge_dialogue s u1;
               s2 = merge_dialogue (merge_dialogue s1 (search_web env s1)) (search_wikipedia env s1)
           in case generate_answer env s2 of
                Inl e \<Rightarrow> Inl e
              | Inr u3 \<Rightarrow> Inr (merge_dialogue s2 u3)))"

lemma num_responses_append:
  "num_responses (xs @ ys) nm = num_responses xs nm + num_responses ys nm"
  by (simp add: num_responses_def)

lemma turn_messages:
  assumes "turn env s = Inr s'"
  shows "\<exists>t c q a. traveler s = Some t \<and> ds_city s = Some c \<and>
           q = \<lparr>msg_class = AIMessage, msg_name = None,
                msg_content = question_llm env (persona t) (messages s)\<rparr> \<and>
           msg_class a = AIMessage \<and> msg_name a = Some ''local'' \<and>
           messages s' = messages s @ [q, a] \<and>
           max_num_turns s' = max_num_turns s \<and> traveler s' = traveler s \<and>
           ds_city s' = ds_city s \<and> dialogue s' = dialogue s \<and>
           ds_sections s' = ds_sections s"
  using assms
  by (auto simp: turn_def generate_question_def generate_answer_def search_web_def
      search_wikipedia_def merge_dialogue_def no_dialogue_update_def append_field_def
      replace_field_def Let_def split: option.splits)

lemma turn_num_responses:
  assumes "turn env s = Inr s'"
  shows "num_responses (messages s') ''local'' = Suc (num_responses (messages s) ''local'')"
    and "effective_max s' = effective_max s"
proof -
  from turn_messages [OF assms] obtain q a where
    m: "messages s' = messages s @ [q, a]" and q: "msg_name q = None"
    and a: "msg_class a = AIMessage" "msg_name a = Some ''local''"
    and mx: "max_num_turns s' = max_num_turns s"
    by auto
  show "num_responses (messages s') ''local'' = Suc (num_responses (messages s) ''local'')"
    using m q a by (simp add: num_responses_def)
  show "effective_max s' = effective_max s"
    using mx by (simp add: effective_max_def)
qed

lemma route_ask_below_max:
  assumes "route_messages s nm = Inr ''ask_question''"
  shows "int (num_responses (messages s) nm) < effective_max s"
  using assms by (auto simp: route_messages_def Let_def split: if_splits)

text \<open>
  The loop of the sub-workflow: a pass of the cycle, then the conditional edge. It is a
  total function: the number of answers named \<open>local\<close> grows with every pass and the
  router sends the run back to \<open>ask_question\<close> only while it is below the maximum.
\<close>

function dialogue_loop :: "'n env \<Rightarrow> dialogueState \<Rightarrow> py_error + (string list \<times> dialogueState)" where
  "dialogue_loop env s =
     (case turn env s of
        Inl e \<Rightarrow> Inl e
      | Inr s' \<Rightarrow>
          (case route_messages s' ''local'' of
             Inl e \<Rightarrow> Inl e
           | Inr nxt \<Rightarrow>
               if nxt = ''ask_question''
               then (case dialogue_loop env s' of
                       Inl e \<Rightarrow> Inl e
                     | Inr (tr, sf) \<Rightarrow> Inr (turn_trace @ tr, sf))
               else Inr (turn_trace, s')))"
  by pat_completeness auto
termination
proof (relation "measure (\<lambda>(env, s). nat (effective_max s - int (num_responses (messages s) ''local'')))")
  show "wf (measure (\<lambda>(env :: 'n env, s). nat (effective_max s - int (num_responses (messages s) ''local''))))"
    by simp
next
  fix env :: "'n env" and s s' :: dialogueState and nxt :: string
  assume t: "turn env s = Inr s'" and r: "route_messages s' ''local'' = Inr nxt"
    and n: "nxt = ''ask_question''"
  from r n have "int (num_responses (messages s') ''local'') < effective_max s'"
    by (simp add: route_ask_below_max)
  with turn_num_responses [OF t]
  show "((env, s'), (env, s)) \<in> measure (\<lambda>(env, s). nat (effective_max s - int (num_responses (messages s) ''local'')))"
    by simp
qed

declare dialogue_loop.simps [simp del]

definition run_dialogue :: "'n env \<Rightarrow> dialogueState \<Rightarrow> py_error + (string list \<times> dialogueState)" where
  "run_dialogue env s =
     (case dialogue_loop env s of
        Inl e \<Rightarrow> Inl e
      | Inr (tr, s1) \<Rightarrow>
          (case save_dialogue env s1 of
             Inl e \<Rightarrow> Inl e
           | Inr u \<Rightarrow>
               (let s2 = merge_dialogue s1 u
                in case write_section env s2 of
                     Inl e \<Rightarrow> Inl e
                   | Inr u' \<Rightarrow>
                       Inr (tr @ [''save_dialogue'', ''write_section''], merge_dialogue s2 u'))))"

text \<open>The state after \<open>k\<close> passes of the cycle, for stating what the router sees.\<close>

fun turns :: "'n env \<Rightarrow> nat \<Rightarrow> dialogueState \<Rightarrow> py_error + dialogueState" where
  "turns env 0 s = Inr s"
| "turns env (Suc k) s = (case turns env k s of Inl e \<Rightarrow> Inl e | Inr s' \<Rightarrow> turn env s')"

section \<open>Weather lookup\<close>

text \<open>
  \<open>daily\<close> is a dictionary filled in arrival order: an association list with one pair
  per key. \<open>add_sample\<close> is the body of the first loop of \<open>get_weather\<close>.
\<close>

definition empty_rec :: "'n day_rec" where
  "empty_rec = \<lparr>temps = [], descs = [], pops = []\<rparr>"

definition sample_date :: "'n sample \<Rightarrow> string" where
  "sample_date item = take 10 (dt_txt item)"

definition sample_pop :: "('n::zero) sample \<Rightarrow> 'n" where
  "sample_pop item = (case pop item of None \<Rightarrow> 0 | Some p \<Rightarrow> p)"

definition add_sample ::
  "('n::zero) sample \<Rightarrow> (string \<times> 'n day_rec) list \<Rightarrow> (string \<times> 'n day_rec) list" where
  "add_sample item daily =
     (let date = sample_date item;
          daily1 = (if date \<in> set (map fst daily) then daily else daily @ [(date, empty_rec)])
      in map (\<lambda>(k, r).
                if k = date
                then (k, \<lparr>temps = temps r @ [main_temp item],
                          descs = descs r @ [weather_description item],
                          pops = pops r @ [sample_pop item]\<rparr>)
                else (k, r)) daily1)"

definition group_by_day :: "('n::zero) sample list \<Rightarrow> (string \<times> 'n day_rec) list" where
  "group_by_day data = fold add_sample data []"

text \<open>
  The builtins \<open>max\<close> and \<open>min\<close>: they raise \<open>ValueError\<close> on an empty sequence and keep
  the first of several extremal elements.
\<close>

fun py_max_key :: "('a \<Rightarrow> nat) \<Rightarrow> 'a list \<Rightarrow> py_error + 'a" where
  "py_max_key key [] = Inl (ValueError ''max() arg is an empty sequence'')"
| "py_max_key key (x # xs) = Inr (fold (\<lambda>y best. if key best < key y then y else best) xs x)"

fun py_max :: "('a::linorder) list \<Rightarrow> py_error + 'a" where
  "py_max [] = Inl (ValueError ''max() arg is an empty sequence'')"
| "py_max (x # xs) = Inr (fold (\<lambda>y best. if best < y then y else best) xs x)"

fun py_min :: "('a::linorder) list \<Rightarrow> py_error + 'a" where
  "py_min [] = Inl (ValueError ''min() arg is an empty sequence'')"
| "py_min (x # xs) = Inr (fold (\<lambda>y best. if y < best then y else best) xs x)"

text \<open>The slice \<open>xs[:n]\<close>; a negative \<open>n\<close> counts from the end.\<close>

definition py_slice_to :: "int \<Rightarrow> 'a list \<Rightarrow> 'a list" where
  "py_slice_to n xs = (if 0 \<le> n then take (nat n) xs else take (length xs - nat (- n)) xs)"

text \<open>
  \<open>max(set(rec["descs"]), key=rec["descs"].count)\<close>: the scan runs over the set of the
  descriptions, in the order the set is iterated.
\<close>

definition summary_of :: "'n env \<Rightarrow> string list \<Rightarrow> py_error + string" where
  "summary_of env ds = py_max_key (count_list ds) (set_iter env ds)"

text \<open>The body of the second loop: the dictionary appended to \<open>out\<close> for one date.\<close>

definition day_entry :: "('n::linorder) env \<Rightarrow> string \<times> 'n day_rec \<Rightarrow> py_error + 'n weather_entry" where
  "day_entry env kv =
     (case kv of (d, rec) \<Rightarrow>
        (case summary_of env (descs rec) of
           Inl e \<Rightarrow> Inl e
         | Inr su \<Rightarrow>
        (case py_max (temps rec) of
           Inl e \<Rightarrow> Inl e
         | Inr tmax \<Rightarrow>
        (case py_min (temps rec) of
           Inl e \<Rightarrow> Inl e
         | Inr tmin \<Rightarrow>
        (case py_max (pops rec) of
           Inl e \<Rightarrow> Inl e
         | Inr pmax \<Rightarrow>
             Inr (DayForecast d su (py_round env tmax 1) (py_round env tmin 1)
                    (py_round env pmax 2)))))))"

fun collect_days :: "('n::linorder) env \<Rightarrow> (string \<times> 'n day_rec) list \<Rightarrow> py_error + 'n weather_entry list" where
  "collect_days env [] = Inr []"
| "collect_days env (kv # kvs) =
     (case day_entry env kv of
        Inl e \<Rightarrow> Inl e
      | Inr r \<Rightarrow> (case collect_days env kvs of Inl e \<Rightarrow> Inl e | Inr rs \<Rightarrow> Inr (r # rs)))"

text \<open>
  The aggregation step of \<open>get_weather\<close> (both loops). The keys of \<open>daily\<close> are distinct,
  so \<open>sorted(daily.items())\<close> orders the pairs by date.
\<close>

definition aggregate :: "('n::{linorder,zero}) env \<Rightarrow> int \<Rightarrow> 'n sample list \<Rightarrow> py_error + 'n weather_entry list" where
  "aggregate env n data = collect_days env (py_slice_to n (sort_key fst (group_by_day data)))"

definition get_latlon :: "'n env \<Rightarrow> string \<Rightarrow> py_error + string" where
  "get_latlon env c =
     (case nominatim env c of
        Inl e \<Rightarrow> Inl e
      | Inr data \<Rightarrow>
          (case data of
             [] \<Rightarrow> Inl (ValueError (''Cannot resolve coordinates for '' @ [CHR 0x27] @ c @ [CHR 0x27]))
           | (lat, lon) # _ \<Rightarrow> Inr (lat @ '','' @ lon)))"

fun py_split :: "char \<Rightarrow> string \<Rightarrow> string list" where
  "py_split sep [] = [[]]"
| "py_split sep (x # xs) =
     (if x = sep then [] # py_split sep xs
      else (case py_split sep xs of [] \<Rightarrow> [[x]] | p # ps \<Rightarrow> (x # p) # ps))"

text \<open>
  \<open>lat, lon = map(float, parts)\<close>: the conversions run in order as the two targets are
  filled, and a third part is converted before the unpacking complains about it.
\<close>

fun unpack2 :: "(string \<Rightarrow> py_error + 'n) \<Rightarrow> string list \<Rightarrow> py_error + 'n \<times> 'n" where
  "unpack2 f [] = Inl (ValueError ''not enough values to unpack (expected 2, got 0)'')"
| "unpack2 f [a] =
     (case f a of
        Inl e \<Rightarrow> Inl e
      | Inr x \<Rightarrow> Inl (ValueError ''not enough values to unpack (expected 2, got 1)''))"
| "unpack2 f (a # b # rest) =
     (case f a of
        Inl e \<Rightarrow> Inl e
      | Inr x \<Rightarrow>
          (case f b of
             Inl e \<Rightarrow> Inl e
           | Inr y \<Rightarrow>
               (case rest of
                  [] \<Rightarrow> Inr (x, y)
                | c # _ \<Rightarrow>
                    (case f c of
                       Inl e \<Rightarrow> Inl e
                     | Inr z \<Rightarrow> Inl (ValueError ''too many values to unpack (expected 2)'')))))"

text \<open>The \<open>try\<close> block of \<open>get_weather\<close>; \<open>Inl\<close> is an exception leaving it.\<close>

definition weather_try :: "('n::{linorder,zero}) env \<Rightarrow> string \<Rightarrow> int \<Rightarrow> py_error + 'n weather_entry list" where
  "weather_try env c n =
     (case get_latlon env c of
        Inl e \<Rightarrow> Inl e
      | Inr latlon \<Rightarrow>
          (case unpack2 (py_float env) (py_split CHR '','' latlon) of
             Inl e \<Rightarrow> Inl e
           | Inr (lat, lon) \<Rightarrow>
               (case forecast env lat lon of
                  Inl e \<Rightarrow> Inl e
                | Inr data \<Rightarrow> aggregate env n data)))"

definition get_weather :: "('n::{linorder,zero}) env \<Rightarrow> string \<Rightarrow> int \<Rightarrow> 'n weather_entry list" where
  "get_weather env c n =
     (if OPENWEATHER_KEY env = [] then [ErrorMarker ''OpenWeather API key not set'']
      else (case weather_try env c n of
              Inl e \<Rightarrow> [ErrorMarker (''Failed to get weather information: '' @ exn_str e)]
            | Inr out \<Rightarrow> out))"

text \<open>
  \<open>get_weather_info\<close> wraps the call in a second \<open>try\<close>; \<open>get_weather\<close> catches every
  exception itself, so the handler of the node is never entered.
\<close>

definition get_weather_info :: "('n::{linorder,zero}) env \<Rightarrow> 'n TravelGraphState \<Rightarrow> 'n graph_update" where
  "get_weather_info env state =
     (let c = (case city state of None \<Rightarrow> ''tokyo'' | Some c \<Rightarrow> c);
          n = (case days state of None \<Rightarrow> 5 | Some d \<Rightarrow> d)
      in no_update\<lparr>up_weather := Some (get_weather env c n)\<rparr>)"

section \<open>Main workflow: the nodes\<close>

definition create_travelers :: "'n env \<Rightarrow> 'n TravelGraphState \<Rightarrow> py_error + 'n graph_update" where
  "create_travelers env state =
     (case city state of
        None \<Rightarrow> Inl (KeyError ''city'')
      | Some c \<Rightarrow>
     (case weather state of
        None \<Rightarrow> Inl (KeyError ''weather'')
      | Some w \<Rightarrow>
     (case days state of
        None \<Rightarrow> Inl (KeyError ''days'')
      | Some d \<Rightarrow>
     (case max_travelers state of
        None \<Rightarrow> Inl (KeyError ''max_travelers'')
      | Some mt \<Rightarrow>
          (let fb = (case human_feedback_traveler state of None \<Rightarrow> [] | Some f \<Rightarrow> f)
           in Inr (no_update\<lparr>up_travelers := Some (travelers_llm env c w d fb mt)\<rparr>))))))"

definition feedback_traveler :: "'n TravelGraphState \<Rightarrow> 'n graph_update" where
  "feedback_traveler state = no_update"

text \<open>
  \<open>Send(node, arg)\<close>. The dictionary the router sends also holds \<open>max_travelers\<close>, which
  is not a key of \<open>dialogueState\<close> and is read by no node of the sub-workflow.
\<close>

record send =
  send_node :: string
  send_arg :: dialogueState

datatype route = Goto string | Fanout "send list"

definition dialogue_seed :: "string \<Rightarrow> Traveler \<Rightarrow> dialogueState" where
  "dialogue_seed c t =
     \<lparr>messages = [\<lparr>msg_class = HumanMessage, msg_name = None,
                   msg_content = ''So you said you plan to have a trip on '' @ c @ ''?''\<rparr>],
      max_num_turns = Some 2,
      ds_context = [],
      traveler = Some t,
      dialogue = Some [],
      ds_sections = [],
      ds_city = Some c\<rparr>"

definition conduct_dialogue_router :: "'n TravelGraphState \<Rightarrow> route" where
  "conduct_dialogue_router state =
     (let feedbacks = human_feedback_traveler state
      in if (case feedbacks of None \<Rightarrow> False | Some f \<Rightarrow> f \<noteq> [])
         then Goto ''create_travelers''
         else (let c = (case city state of None \<Rightarrow> [] | Some c \<Rightarrow> c);
                   ts = (case travelers state of None \<Rightarrow> [] | Some ts \<Rightarrow> ts)
               in Fanout (map (\<lambda>t. \<lparr>send_node = ''conduct_dialogue_sub'',
                                      send_arg = dialogue_seed c t\<rparr>) ts)))"

definition write_plan :: "'n env \<Rightarrow> 'n TravelGraphState \<Rightarrow> py_error + 'n graph_update" where
  "write_plan env state =
     (case days state of
        None \<Rightarrow> Inl (KeyError ''days'')
      | Some d \<Rightarrow>
     (case sections state of
        None \<Rightarrow> Inl (KeyError ''sections'')
      | Some secs \<Rightarrow>
     (case city state of
        None \<Rightarrow> Inl (KeyError ''city'')
      | Some c \<Rightarrow>
     (case weather state of
        None \<Rightarrow> Inl (KeyError ''weather'')
      | Some w \<Rightarrow>
     (case human_feedback_plan state of
        None \<Rightarrow> Inl (KeyError ''human_feedback_plan'')
      | Some fb \<Rightarrow>
          (let formatted_str_sections = py_join [CHR 0x0A, CHR 0x0A] secs
           in Inr (no_update\<lparr>up_final_plan := Some (plan_llm env c d w formatted_str_sections fb)\<rparr>)))))))"

definition feedback_plan :: "'n TravelGraphState \<Rightarrow> 'n graph_update" where
  "feedback_plan state = no_update"

definition initiate_all_plans :: "'n TravelGraphState \<Rightarrow> string" where
  "initiate_all_plans state =
     (let feedbacks = human_feedback_plan state
      in if \<not> (case feedbacks of None \<Rightarrow> False | Some f \<Rightarrow> f \<noteq> []) then END else ''write_plan'')"

section \<open>Main workflow: the graph\<close>

text \<open>
  Modelled from the spec: the merge of the main state is the library's too (section 4.1).
  \<open>sections\<close> is the one append-only field of \<open>TravelGraphState\<close>; an absent \<open>sections\<close>
  counts as the empty list when an update is appended to it.
\<close>

definition merge_state :: "'n TravelGraphState \<Rightarrow> 'n graph_update \<Rightarrow> 'n TravelGraphState" where
  "merge_state s u =
     \<lparr>city = replace_field (city s) (up_city u),
      weather = replace_field (weather s) (up_weather u),
      days = replace_field (days s) (up_days u),
      max_travelers = replace_field (max_travelers s) (up_max_travelers u),
      human_feedback_traveler = replace_field (human_feedback_traveler s) (up_human_feedback_traveler u),
      human_feedback_plan = replace_field (human_feedback_plan s) (up_human_feedback_plan u),
      travelers = replace_field (travelers s) (up_travelers u),
      sections = (case up_sections u of
                    None \<Rightarrow> sections s
                  | Some xs \<Rightarrow> Some ((case sections s of None \<Rightarrow> [] | Some ys \<Rightarrow> ys) @ xs)),
      content = replace_field (content s) (up_content u),
      final_plan = replace_field (final_plan s) (up_final_plan u)\<rparr>"

text \<open>
  What \<open>builder\<close> declares: the static edges, the one conditional edge (from
  \<open>human_feedback_traveler_node\<close>, routed by \<open>conduct_dialogue_router\<close>) and the
  interrupt. \<open>initiate_all_plans\<close> and \<open>feedback_plan\<close> are defined by the source but are
  in no \<open>add_node\<close>, \<open>add_edge\<close> or \<open>add_conditional_edges\<close> call.
\<close>

definition main_edges :: "(string \<times> string) list" where
  "main_edges =
     [(START, ''get_weather_info''),
      (''get_weather_info'', ''create_travelers''),
      (''create_travelers'', ''human_feedback_traveler_node''),
      (''conduct_dialogue_sub'', ''write_plan''),
      (''write_plan'', END)]"

definition conditional_sources :: "string list" where
  "conditional_sources = [''human_feedback_traveler_node'']"

definition interrupt_before :: "string list" where
  "interrupt_before = [''human_feedback_traveler_node'']"

definition successors :: "string \<Rightarrow> string list" where
  "successors n = map snd (filter (\<lambda>e. fst e = n) main_edges)"

text \<open>
  The body registered under each node name. \<open>conduct_dialogue_sub\<close> is the compiled
  sub-workflow and is started only by a \<open>Send\<close>; \<open>conduct_dialogue_router\<close> is registered
  as a node too, but no edge leads to it. Neither is ever scheduled as a plain node, and
  the last branch stands for them and for the markers.
\<close>

definition node_body :: "('n::{linorder,zero}) env \<Rightarrow> string \<Rightarrow> 'n TravelGraphState \<Rightarrow> py_error + 'n graph_update" where
  "node_body env n s =
     (if n = ''get_weather_info'' then Inr (get_weather_info env s)
      else if n = ''create_travelers'' then create_travelers env s
      else if n = ''human_feedback_traveler_node'' then Inr (feedback_traveler s)
      else if n = ''write_plan'' then write_plan env s
      else Inr no_update)"

text \<open>
  Modelled from the spec: the engine (section 4.3). A run advances in steps. The tasks of
  a step are the nodes scheduled by the edges out of the previous step, and one task per
  \<open>Send\<close>; all of them read the state the step starts from, their updates are merged
  once all of them have finished (the join barrier), and only then are the next tasks
  chosen. A sub-execution hands back the output keys it shares with the parent state,
  which is \<open>sections\<close> alone. A step that holds a node flagged \<open>interrupt_before\<close>
  suspends the run until the caller resumes it; the update the caller applies on
  resuming is taken from the list \<open>ins\<close>.
\<close>

datatype task = Run string | Spawn send

fun task_name :: "task \<Rightarrow> string" where
  "task_name (Run n) = n"
| "task_name (Spawn sd) = send_node sd"

fun is_spawn :: "task \<Rightarrow> bool" where
  "is_spawn (Run n) = False"
| "is_spawn (Spawn sd) = True"

fun run_task :: "('n::{linorder,zero}) env \<Rightarrow> 'n TravelGraphState \<Rightarrow> task \<Rightarrow> py_error + 'n graph_update" where
  "run_task env s (Run n) = node_body env n s"
| "run_task env s (Spawn sd) =
     (case run_dialogue env (send_arg sd) of
        Inl e \<Rightarrow> Inl e
      | Inr (tr, sf) \<Rightarrow> Inr (no_update\<lparr>up_sections := Some (ds_sections sf)\<rparr>))"

fun run_tasks :: "('n::{linorder,zero}) env \<Rightarrow> 'n TravelGraphState \<Rightarrow> task list \<Rightarrow> (string \<times> py_error) + 'n graph_update list" where
  "run_tasks env s [] = Inr []"
| "run_tasks env s (t # ts) =
     (case run_task env s t of
        Inl e \<Rightarrow> Inl (task_name t, e)
      | Inr u \<Rightarrow> (case run_tasks env s ts of Inl x \<Rightarrow> Inl x | Inr us \<Rightarrow> Inr (u # us)))"

definition exec_step :: "('n::{linorder,zero}) env \<Rightarrow> task list \<Rightarrow> 'n TravelGraphState \<Rightarrow> (string \<times> py_error) + 'n TravelGraphState" where
  "exec_step env fr s =
     (case run_tasks env s fr of
        Inl x \<Rightarrow> Inl x
      | Inr us \<Rightarrow> Inr (fold (\<lambda>u st. merge_state st u) us s))"

fun next_tasks :: "'n TravelGraphState \<Rightarrow> task \<Rightarrow> task list" where
  "next_tasks s (Run n) =
     (if n \<in> set conditional_sources
      then (case conduct_dialogue_router s of Goto m \<Rightarrow> [Run m] | Fanout sends \<Rightarrow> map Spawn sends)
      else map Run (successors n))"
| "next_tasks s (Spawn sd) = map Run (successors (send_node sd))"

definition next_frontier :: "'n TravelGraphState \<Rightarrow> task list \<Rightarrow> task list" where
  "next_frontier s fr =
     (let nexts = concat (map (next_tasks s) fr)
      in filter is_spawn nexts @
         remdups (map Run (filter (\<lambda>n. n \<noteq> END) (map task_name (filter (\<lambda>t. \<not> is_spawn t) nexts)))))"

fun is_interrupt :: "task \<Rightarrow> bool" where
  "is_interrupt (Run n) = (n \<in> set interrupt_before)"
| "is_interrupt (Spawn sd) = False"

definition interrupted :: "task list \<Rightarrow> bool" where
  "interrupted fr = list_ex is_interrupt fr"

datatype status = Completed | Suspended "string list" | Failed string py_error

definition rank :: "string \<Rightarrow> nat" where
  "rank n =
     (if n = START then 6
      else if n = ''get_weather_info'' then 5
      else if n = ''create_travelers'' then 4
      else if n = ''human_feedback_traveler_node'' then 3
      else if n = ''conduct_dialogue_sub'' then 2
      else if n = ''write_plan'' then 1
      else 0)"

definition frontier_rank :: "task list \<Rightarrow> nat" where
  "frontier_rank fr = Max (set (0 # map (\<lambda>t. Suc (rank (task_name t))) fr))"

lemma rank_values:
  "rank START = 6" "rank ''get_weather_info'' = 5" "rank ''create_travelers'' = 4"
  "rank ''human_feedback_traveler_node'' = 3" "rank ''conduct_dialogue_sub'' = 2"
  "rank ''write_plan'' = 1" "rank END = 0"
  by (simp_all add: rank_def START_def END_def)

lemma edge_cases:
  assumes "(a, b) \<in> set main_edges"
  shows "(a = START \<and> b = ''get_weather_info'') \<or>
     (a = ''get_weather_info'' \<and> b = ''create_travelers'') \<or>
     (a = ''create_travelers'' \<and> b = ''human_feedback_traveler_node'') \<or>
     (a = ''conduct_dialogue_sub'' \<and> b = ''write_plan'') \<or>
     (a = ''write_plan'' \<and> b = END)"
  using assms by (simp add: main_edges_def)

lemma edge_rank: "(a, b) \<in> set main_edges \<Longrightarrow> rank b < rank a"
  by (drule edge_cases) (elim disjE conjE; hypsubst; simp only: rank_values; simp)

lemma next_tasks_rank:
  assumes "t' \<in> set (next_tasks s t)" and "\<not> is_interrupt t"
  shows "rank (task_name t') < rank (task_name t)"
proof (cases t)
  case (Run n)
  with assms(2) have "n \<notin> set conditional_sources"
    by (simp add: interrupt_before_def conditional_sources_def)
  with assms(1) Run obtain m where "t' = Run m" "(n, m) \<in> set main_edges"
    by (auto simp: successors_def)
  with Run show ?thesis by (simp add: edge_rank)
next
  case (Spawn sd)
  with assms(1) obtain m where "t' = Run m" "(send_node sd, m) \<in> set main_edges"
    by (auto simp: successors_def)
  with Spawn show ?thesis by (simp add: edge_rank)
qed

lemma next_frontier_subset:
  "t' \<in> set (next_frontier s fr) \<Longrightarrow> \<exists>t \<in> set fr. t' \<in> set (next_tasks s t)"
proof -
  assume a: "t' \<in> set (next_frontier s fr)"
  have r: "\<not> is_spawn x \<Longrightarrow> Run (task_name x) = x" for x by (cases x) auto
  from a show ?thesis
    by (auto simp: next_frontier_def Let_def r)
qed

lemma frontier_rank_next:
  assumes "fr \<noteq> []" and "\<not> interrupted fr"
  shows "frontier_rank (next_frontier s fr) < frontier_rank fr"
proof -
  have fin: "finite (set (0 # map (\<lambda>t. Suc (rank (task_name t))) fr))" by simp
  have up: "Suc (rank (task_name t)) \<le> frontier_rank fr" if "t \<in> set fr" for t
    unfolding frontier_rank_def using that by (intro Max_ge) auto
  have "a < frontier_rank fr"
    if "a \<in> set (0 # map (\<lambda>t. Suc (rank (task_name t))) (next_frontier s fr))" for a
  proof (cases "a = 0")
    case True
    from assms(1) obtain t where "t \<in> set fr" by (cases fr) auto
    from up [OF this] True show ?thesis by simp
  next
    case False
    with that obtain t' where t': "t' \<in> set (next_frontier s fr)" "a = Suc (rank (task_name t'))"
      by auto
    from next_frontier_subset [OF t'(1)] obtain t where t: "t \<in> set fr" "t' \<in> set (next_tasks s t)"
      by blast
    from assms(2) t(1) have "\<not> is_interrupt t"
      by (auto simp: interrupted_def list_ex_iff)
    from next_tasks_rank [OF t(2) this] up [OF t(1)] t'(2) show ?thesis by simp
  qed
  then show ?thesis
    unfolding frontier_rank_def [of "next_frontier s fr"] by (subst Max_less_iff) auto
qed

text \<open>
  The run, from a frontier of tasks: the steps taken, each with its tasks and the state
  they read, the last state, and how the run ended. It is total: a step either takes an
  update from the caller or moves every task strictly forward along the static edges.
\<close>

function run_graph ::
  "('n::{linorder,zero}) env \<Rightarrow> 'n graph_update list \<Rightarrow> task list \<Rightarrow> 'n TravelGraphState \<Rightarrow>
     (task list \<times> 'n TravelGraphState) list \<times> 'n TravelGraphState \<times> status" where
  "run_graph env ins fr s =
     (if fr = [] then ([], s, Completed)
      else if interrupted fr \<and> ins = [] then ([], s, Suspended (filter (\<lambda>n. n \<in> set interrupt_before) (map task_name fr)))
      else (let s0 = (if interrupted fr then merge_state s (hd ins) else s)
            in case exec_step env fr s0 of
                 Inl (n, e) \<Rightarrow> ([(fr, s0)], s0, Failed n e)
               | Inr s1 \<Rightarrow>
                   (case run_graph env (if interrupted fr then tl ins else ins) (next_frontier s1 fr) s1 of
                      (tr, sf, st) \<Rightarrow> ((fr, s0) # tr, sf, st))))"
  by pat_completeness auto
termination
proof (relation "measures [\<lambda>(env, ins, fr, s). length ins, \<lambda>(env, ins, fr, s). frontier_rank fr]")
  show "wf (measures [\<lambda>(env :: 'n env, ins :: 'n graph_update list, fr, s :: 'n TravelGraphState). length ins,
                      \<lambda>(env, ins, fr, s). frontier_rank fr])"
    by simp
next
  fix env :: "'n env" and ins :: "'n graph_update list" and fr :: "task list"
    and s x s1 :: "'n TravelGraphState"
  assume a: "fr \<noteq> []" "\<not> (interrupted fr \<and> ins = [])"
  show "((env, if interrupted fr then tl ins else ins, next_frontier s1 fr, s1), (env, ins, fr, s))
          \<in> measures [\<lambda>(env, ins, fr, s). length ins, \<lambda>(env, ins, fr, s). frontier_rank fr]"
  proof (cases "interrupted fr")
    case True
    with a(2) have "ins \<noteq> []" by simp
    with True show ?thesis by simp
  next
    case False
    with frontier_rank_next [OF a(1) False, of s1] show ?thesis by simp
  qed
qed

declare run_graph.simps [simp del]

definition start_run :: "('n::{linorder,zero}) env \<Rightarrow> 'n graph_update list \<Rightarrow> 'n TravelGraphState \<Rightarrow>
     (task list \<times> 'n TravelGraphState) list \<times> 'n TravelGraphState \<times> status" where
  "start_run env ins s = run_graph env ins (map Run (successors START)) s"

section \<open>Notions of the specification\<close>

text \<open>
  An interviewer message is a question of the traveler: an \<open>AIMessage\<close> that is not an
  answer named \<open>local\<close>. The specification's \<open>route_decision\<close> concludes when the number
  of interviewer turns has reached the maximum or the most recent interviewer message
  holds the closing phrase.
\<close>

definition is_interviewer :: "message \<Rightarrow> bool" where
  "is_interviewer m = (msg_class m = AIMessage \<and> msg_name m \<noteq> Some ''local'')"

definition interviewer_turns :: "message list \<Rightarrow> nat" where
  "interviewer_turns msgs = length (filter is_interviewer msgs)"

definition last_interviewer :: "message list \<Rightarrow> message option" where
  "last_interviewer msgs =
     (if filter is_interviewer msgs = [] then None else Some (last (filter is_interviewer msgs)))"

definition conclude_condition :: "dialogueState \<Rightarrow> bool" where
  "conclude_condition s =
     ((case max_num_turns s of None \<Rightarrow> 2 | Some mx \<Rightarrow> mx) \<le> int (interviewer_turns (messages s)) \<or>
      (case last_interviewer (messages s) of
         None \<Rightarrow> False
       | Some m \<Rightarrow> sublist closing_phrase (msg_content m)))"

text \<open>
  An interview concludes after \<open>n\<close> turns when the run of the sub-workflow returns,
  having run \<open>ask_question\<close> exactly \<open>n\<close> times before \<open>save_dialogue\<close> and
  \<open>write_section\<close>, and when after the \<open>k\<close>-th pass of the cycle the count the router
  reads is \<open>k\<close>, at most \<open>n\<close>, and the router answers \<open>ask_question\<close> for \<open>k < n\<close>
  and \<open>save_dialogue\<close> for \<open>k = n\<close>.
\<close>

definition concludes_after :: "'n env \<Rightarrow> dialogueState \<Rightarrow> nat \<Rightarrow> bool" where
  "concludes_after env s n =
     (\<exists>tr sf. run_dialogue env s = Inr (tr, sf) \<and>
        tr = concat (replicate n turn_trace) @ [''save_dialogue'', ''write_section''] \<and>
        count_list tr ''ask_question'' = n \<and>
        (\<forall>k. 1 \<le> k \<and> k \<le> n \<longrightarrow>
           (\<exists>sk. turns env k s = Inr sk \<and>
              num_responses (messages sk) ''local'' = k \<and>
              int (num_responses (messages sk) ''local'') \<le> int n \<and>
              route_messages sk ''local'' =
                Inr (if k < n then ''ask_question'' else ''save_dialogue''))))"






text \<open>The samples of one calendar date, field by field, in arrival order.\<close>

definition day_rec_of :: "('n::zero) sample list \<Rightarrow> string \<Rightarrow> 'n day_rec" where
  "day_rec_of data d =
     \<lparr>temps = map main_temp (filter (\<lambda>s. sample_date s = d) data),
      descs = map weather_description (filter (\<lambda>s. sample_date s = d) data),
      pops = map sample_pop (filter (\<lambda>s. sample_date s = d) data)\<rparr>"



section \<open>A concrete run\<close>

text \<open>
  Numbers as rationals, \<open>round\<close> as rounding to the nearest multiple of \<open>10\<^sup>-\<^sup>n\<close> with
  ties to the even neighbour, a set iterated in the order in which \<open>remdups\<close> lists
  its elements, and collaborators that answer with fixed texts.
\<close>

definition dec_round :: "rat \<Rightarrow> nat \<Rightarrow> rat" where
  "dec_round x n =
     (let y = x * 10 ^ n;
          f = \<lfloor>y\<rfloor>;
          r = y - of_int f;
          k = (if r < 1 / 2 then f else if 1 / 2 < r then f + 1 else if even f then f else f + 1)
      in of_int k / 10 ^ n)"

definition alice :: Traveler where
  "alice = \<lparr>name = ''Alice'', description = ''Temples and gardens''\<rparr>"

definition bob :: Traveler where
  "bob = \<lparr>name = ''Bob'', description = ''Street food''\<rparr>"

definition example_samples :: "rat sample list" where
  "example_samples =
     [\<lparr>dt_txt = ''2024-05-02 00:00:00'', main_temp = 15, weather_description = ''clear'', pop = None\<rparr>,
      \<lparr>dt_txt = ''2024-05-01 09:00:00'', main_temp = 182 / 10, weather_description = ''rain'', pop = Some (4 / 10)\<rparr>,
      \<lparr>dt_txt = ''2024-05-01 12:00:00'', main_temp = 207 / 10, weather_description = ''rain'', pop = Some (9 / 10)\<rparr>,
      \<lparr>dt_txt = ''2024-05-01 15:00:00'', main_temp = 19, weather_description = ''clear'', pop = None\<rparr>]"

definition example_env :: "rat env" where
  "example_env =
     \<lparr>OPENWEATHER_KEY = ''key'',
      nominatim = (\<lambda>c. Inr [(''35.0'', ''135.7'')]),
      py_float = (\<lambda>s. Inr 35),
      forecast = (\<lambda>lat lon. Inr example_samples),
      py_round = dec_round,
      set_iter = remdups,
      travelers_llm = (\<lambda>c w d fb mt. [alice, bob]),
      question_llm = (\<lambda>p ms. ''What should I see?''),
      query_llm = (\<lambda>ms. ''sights''),
      tavily = (\<lambda>q. []),
      wikipedia = (\<lambda>q. []),
      answer_llm = (\<lambda>c p ctx ms. ''The old town.''),
      get_buffer_string = (\<lambda>ms. concat (map msg_content ms)),
      section_llm = (\<lambda>p d ctx. ''### Summary''),
      plan_llm = (\<lambda>c d w secs fb. ''Day 1'')\<rparr>"

definition kyoto :: "rat TravelGraphState" where
  "kyoto =
     \<lparr>city = Some ''Kyoto'', weather = None, days = Some 3, max_travelers = Some 2,
      human_feedback_traveler = None, human_feedback_plan = None, travelers = None,
      sections = None, content = None, final_plan = None\<rparr>"

definition at_interrupt :: "rat TravelGraphState" where
  "at_interrupt = kyoto\<lparr>weather := Some [], travelers := Some [alice, bob]\<rparr>"

definition ready_for_plan :: "rat TravelGraphState" where
  "ready_for_plan = kyoto\<lparr>weather := Some [], sections := Some [''### Summary'']\<rparr>"

definition after_one_round :: dialogueState where
  "after_one_round =
     (dialogue_seed ''Kyoto'' alice)
       \<lparr>messages := messages (dialogue_seed ''Kyoto'' alice) @
          [\<lparr>msg_class = AIMessage, msg_name = None, msg_content = ''What should I see?''\<rparr>,
           \<lparr>msg_class = AIMessage, msg_name = Some ''local'', msg_content = ''The old town.''\<rparr>]\<rparr>"

section \<open>Interview sub-workflow: properties\<close>

lemma turn_total:
  assumes "traveler s = Some t" "ds_city s = Some c"
  shows "\<exists>s'. turn env s = Inr s'"
  using assms
  by (simp add: turn_def generate_question_def generate_answer_def merge_dialogue_def
      search_web_def search_wikipedia_def append_field_def
      replace_field_def no_dialogue_update_def Let_def)

lemma turn_interviewer_turns:
  assumes "turn env s = Inr s'"
  shows "interviewer_turns (messages s') = Suc (interviewer_turns (messages s))"
proof -
  from turn_messages [OF assms] obtain q a where
    m: "messages s' = messages s @ [q, a]"
    and q: "msg_class q = AIMessage" "msg_name q = None"
    and a: "msg_class a = AIMessage" "msg_name a = Some ''local''"
    by auto
  then show ?thesis
    by (simp add: interviewer_turns_def is_interviewer_def)
qed

lemma turns_shape:
  assumes "traveler s = Some t" "ds_city s = Some c"
  shows "\<exists>sk. turns env k s = Inr sk \<and> traveler sk = Some t \<and> ds_city sk = Some c \<and>
           effective_max sk = effective_max s \<and>
           num_responses (messages sk) ''local'' = num_responses (messages s) ''local'' + k \<and>
           interviewer_turns (messages sk) = interviewer_turns (messages s) + k"
proof (induction k)
  case 0
  show ?case using assms by simp
next
  case (Suc k)
  then obtain sk where sk: "turns env k s = Inr sk" "traveler sk = Some t" "ds_city sk = Some c"
    "effective_max sk = effective_max s"
    "num_responses (messages sk) ''local'' = num_responses (messages s) ''local'' + k"
    "interviewer_turns (messages sk) = interviewer_turns (messages s) + k"
    by blast
  from turn_total [OF sk(2,3)] obtain s' where s': "turn env sk = Inr s'" by blast
  from turn_messages [OF s'] have fr: "traveler s' = traveler sk" "ds_city s' = ds_city sk"
    by auto
  from sk s' fr turn_num_responses [OF s'] turn_interviewer_turns [OF s']
  show ?case by simp
qed

lemma route_after_turn:
  assumes "turn env s = Inr s'"
  shows "\<exists>t. traveler s = Some t \<and> route_messages s' ''local'' =
           Inr (if effective_max s' \<le> int (num_responses (messages s') ''local'') \<or>
                   sublist closing_phrase (question_llm env (persona t) (messages s))
                then ''save_dialogue'' else ''ask_question'')"
proof -
  from turn_messages [OF assms] obtain t q a where
    t: "traveler s = Some t"
    and q: "q = \<lparr>msg_class = AIMessage, msg_name = None,
                msg_content = question_llm env (persona t) (messages s)\<rparr>"
    and m: "messages s' = messages s @ [q, a]"
    by auto
  have "messages s' ! (length (messages s') - 2) = q"
    using m by (simp add: nth_append)
  then show ?thesis
    using t q m by (simp add: route_messages_def Let_def)
qed

lemma last_interviewer_after_turn:
  assumes "turn env s = Inr s'"
  shows "\<exists>t. traveler s = Some t \<and> last_interviewer (messages s') =
           Some \<lparr>msg_class = AIMessage, msg_name = None,
                 msg_content = question_llm env (persona t) (messages s)\<rparr>"
proof -
  from turn_messages [OF assms] obtain t q a where
    t: "traveler s = Some t"
    and q: "q = \<lparr>msg_class = AIMessage, msg_name = None,
                msg_content = question_llm env (persona t) (messages s)\<rparr>"
    and m: "messages s' = messages s @ [q, a]"
    and a: "msg_class a = AIMessage" "msg_name a = Some ''local''"
    by auto
  have "last_interviewer (messages s') = Some q"
    using m q a by (simp add: last_interviewer_def is_interviewer_def)
  with t q show ?thesis by simp
qed

lemma turns_Suc_left:
  "turns env (Suc k) s = (case turn env s of Inl e \<Rightarrow> Inl e | Inr s' \<Rightarrow> turns env k s')"
  by (induction k) (auto split: sum.splits)

lemma dialogue_loop_runs:
  assumes "traveler s = Some t" "ds_city s = Some c"
    and "effective_max s = int (num_responses (messages s) ''local'') + int (Suc d)"
    and "\<forall>p ms. \<not> sublist closing_phrase (question_llm env p ms)"
  shows "\<exists>sf. turns env (Suc d) s = Inr sf \<and>
           dialogue_loop env s = Inr (concat (replicate (Suc d) turn_trace), sf)"
  using assms(1-3)
proof (induction d arbitrary: s)
  case 0
  from turn_total [OF "0.prems"(1,2)] obtain s' where s': "turn env s = Inr s'" by blast
  have mx: "effective_max s' \<le> int (num_responses (messages s') ''local'')"
    using turn_num_responses [OF s'] "0.prems"(3) by simp
  have r: "route_messages s' ''local'' = Inr ''save_dialogue''"
    using route_after_turn [OF s'] mx by auto
  have "dialogue_loop env s = Inr (turn_trace, s')"
    by (subst dialogue_loop.simps) (simp add: s' r)
  then show ?case using s' by simp
next
  case (Suc d)
  from turn_total [OF Suc.prems(1,2)] obtain s' where s': "turn env s = Inr s'" by blast
  from turn_messages [OF s'] have fr: "traveler s' = Some t" "ds_city s' = Some c"
    using Suc.prems(1,2) by auto
  have mx: "effective_max s' = int (num_responses (messages s') ''local'') + int (Suc d)"
    using turn_num_responses [OF s'] Suc.prems(3) by simp
  have r: "route_messages s' ''local'' = Inr ''ask_question''"
    using route_after_turn [OF s'] mx assms(4) by auto
  from Suc.IH [OF fr mx] obtain sf where
    sf: "turns env (Suc d) s' = Inr sf"
      "dialogue_loop env s' = Inr (concat (replicate (Suc d) turn_trace), sf)"
    by blast
  have "dialogue_loop env s = Inr (turn_trace @ concat (replicate (Suc d) turn_trace), sf)"
    by (subst dialogue_loop.simps) (simp add: s' r sf(2))
  moreover have "turns env (Suc (Suc d)) s = Inr sf"
    by (subst turns_Suc_left) (simp add: s' sf(1) del: turns.simps)
  ultimately show ?case by simp
qed

lemma dialogue_loop_total:
  assumes "traveler s = Some t" "ds_city s = Some c"
  shows "\<exists>tr sf. dialogue_loop env s = Inr (tr, sf) \<and> traveler sf = Some t \<and>
           ds_sections sf = ds_sections s"
  using assms
proof (induction env s rule: dialogue_loop.induct)
  case (1 env s)
  from turn_total [OF "1.prems"] obtain s' where s': "turn env s = Inr s'" by blast
  from turn_messages [OF s'] "1.prems"
  have fr: "traveler s' = Some t" "ds_city s' = Some c" "ds_sections s' = ds_sections s"
    by auto
  from route_after_turn [OF s'] obtain nxt where
    r: "route_messages s' ''local'' = Inr nxt" by auto
  show ?case
  proof (cases "nxt = ''ask_question''")
    case True
    from "1.IH" [OF s' r True fr(1,2)] obtain tr sf where
      "dialogue_loop env s' = Inr (tr, sf)" "traveler sf = Some t" "ds_sections sf = ds_sections s'"
      by blast
    then show ?thesis
      using s' r True fr(3) by (subst dialogue_loop.simps) simp
  next
    case False
    then show ?thesis
      using s' r fr by (subst dialogue_loop.simps) simp
  qed
qed

lemma run_dialogue_after_loop:
  assumes "dialogue_loop env s = Inr (tr, s1)" "traveler s1 = Some t"
  shows "\<exists>sf. run_dialogue env s = Inr (tr @ [''save_dialogue'', ''write_section''], sf) \<and>
           ds_sections sf = ds_sections s1 @
             [section_llm env (persona t) (get_buffer_string env (messages s1)) (ds_context s1)]"
  using assms
  by (simp add: run_dialogue_def save_dialogue_def write_section_def merge_dialogue_def
      no_dialogue_update_def append_field_def replace_field_def Let_def)

lemma run_dialogue_total:
  assumes "traveler s = Some t" "ds_city s = Some c"
  shows "\<exists>tr sf sec. run_dialogue env s = Inr (tr, sf) \<and> ds_sections sf = ds_sections s @ [sec]"
proof -
  from dialogue_loop_total [OF assms] obtain tr s1 where
    l: "dialogue_loop env s = Inr (tr, s1)" "traveler s1 = Some t" "ds_sections s1 = ds_sections s"
    by blast
  from run_dialogue_after_loop [OF l(1,2)] l(3) show ?thesis by auto
qed

lemma count_turn_trace:
  "count_list (concat (replicate n turn_trace)) ''ask_question'' = n"
  by (induction n) (simp_all add: turn_trace_def)

lemma turns_counts:
  assumes "turns env k s = Inr sk"
  shows "num_responses (messages sk) ''local'' = num_responses (messages s) ''local'' + k \<and>
         interviewer_turns (messages sk) = interviewer_turns (messages s) + k \<and>
         effective_max sk = effective_max s"
  using assms
proof (induction k arbitrary: sk)
  case 0
  then show ?case by simp
next
  case (Suc k)
  then obtain sj where sj: "turns env k s = Inr sj" "turn env sj = Inr sk"
    by (auto split: sum.splits)
  from Suc.IH [OF sj(1)] turn_num_responses [OF sj(2)] turn_interviewer_turns [OF sj(2)]
  show ?case by simp
qed

lemma no_ai_counts:
  assumes "\<forall>m\<in>set msgs. msg_class m \<noteq> AIMessage"
  shows "num_responses msgs nm = 0" and "interviewer_turns msgs = 0"
  using assms
  by (auto simp: num_responses_def interviewer_turns_def is_interviewer_def filter_empty_conv)

lemma loop_concludes:
  assumes "traveler s = Some t" and "ds_city s = Some c"
    and "num_responses (messages s) ''local'' = 0"
    and "effective_max s = int n" and "1 \<le> n"
    and "\<forall>p ms. \<not> sublist closing_phrase (question_llm env p ms)"
  shows "concludes_after env s n"
proof -
  from assms(5) obtain d where d: "n = Suc d" by (cases n) auto
  from dialogue_loop_runs [OF assms(1,2) _ assms(6), of d] assms(3,4) d
  obtain s1 where s1: "turns env n s = Inr s1"
    "dialogue_loop env s = Inr (concat (replicate n turn_trace), s1)"
    by auto
  from turns_shape [OF assms(1,2), of env n] s1(1) have t1: "traveler s1 = Some t"
    by auto
  from run_dialogue_after_loop [OF s1(2) t1] obtain sf where
    sf: "run_dialogue env s =
           Inr (concat (replicate n turn_trace) @ [''save_dialogue'', ''write_section''], sf)"
    by blast
  have routes: "\<exists>sk. turns env k s = Inr sk \<and>
                 num_responses (messages sk) ''local'' = k \<and>
                 int (num_responses (messages sk) ''local'') \<le> int n \<and>
                 route_messages sk ''local'' =
                   Inr (if k < n then ''ask_question'' else ''save_dialogue'')"
    if k: "1 \<le> k" "k \<le> n" for k
  proof -
    from k(1) obtain j where j: "k = Suc j" by (cases k) auto
    from turns_shape [OF assms(1,2), of env j] obtain sj where
      sj: "turns env j s = Inr sj" "traveler sj = Some t" "ds_city sj = Some c"
      by blast
    from turn_total [OF sj(2,3)] obtain sk where sk: "turn env sj = Inr sk" by blast
    have tk: "turns env k s = Inr sk" using j sj(1) sk by simp
    from turns_counts [OF tk] assms(3)
    have cnt: "num_responses (messages sk) ''local'' = k" "effective_max sk = effective_max s"
      by auto
    from route_after_turn [OF sk] assms(6) cnt assms(4)
    have "route_messages sk ''local'' = Inr (if k < n then ''ask_question'' else ''save_dialogue'')"
      by auto
    with tk cnt k(2) assms(4) show ?thesis by simp
  qed
  show ?thesis
    unfolding concludes_after_def using sf routes by (simp add: count_turn_trace)
qed


lemma loop_concludes_low:
  assumes "traveler s = Some t" and "ds_city s = Some c"
    and "num_responses (messages s) ''local'' = 0"
    and "effective_max s \<le> 1"
  shows "concludes_after env s 1"
proof -
  from turn_total [OF assms(1,2)] obtain s' where s': "turn env s = Inr s'" by blast
  from turn_num_responses [OF s'] assms(3,4)
  have cnt: "num_responses (messages s') ''local'' = 1"
    and mx: "effective_max s' \<le> int (num_responses (messages s') ''local'')"
    by simp_all
  have r: "route_messages s' ''local'' = Inr ''save_dialogue''"
    using route_after_turn [OF s'] mx by auto
  have l: "dialogue_loop env s = Inr (turn_trace, s')"
    by (subst dialogue_loop.simps) (simp add: s' r)
  from turn_messages [OF s'] assms(1) have t1: "traveler s' = Some t" by auto
  from run_dialogue_after_loop [OF l t1] obtain sf where
    sf: "run_dialogue env s = Inr (turn_trace @ [''save_dialogue'', ''write_section''], sf)"
    by blast
  have routes: "\<forall>k. 1 \<le> k \<and> k \<le> 1 \<longrightarrow>
      (\<exists>sk. turns env k s = Inr sk \<and> num_responses (messages sk) ''local'' = k \<and>
          int (num_responses (messages sk) ''local'') \<le> int 1 \<and>
          route_messages sk ''local'' = Inr (if k < 1 then ''ask_question'' else ''save_dialogue''))"
  proof (intro allI impI)
    fix k :: nat assume "1 \<le> k \<and> k \<le> 1"
    then have "k = 1" by simp
    then show "\<exists>sk. turns env k s = Inr sk \<and> num_responses (messages sk) ''local'' = k \<and>
          int (num_responses (messages sk) ''local'') \<le> int 1 \<and>
          route_messages sk ''local'' = Inr (if k < 1 then ''ask_question'' else ''save_dialogue'')"
      using s' cnt r by simp
  qed
  have tr: "turn_trace @ [''save_dialogue'', ''write_section''] =
      concat (replicate 1 turn_trace) @ [''save_dialogue'', ''write_section'']"
    by simp
  have cl: "count_list (concat (replicate 1 turn_trace) @ [''save_dialogue'', ''write_section''])
      ''ask_question'' = 1"
    by (simp add: turn_trace_def)
  have "run_dialogue env s =
          Inr (concat (replicate 1 turn_trace) @ [''save_dialogue'', ''write_section''], sf) \<and>
        concat (replicate 1 turn_trace) @ [''save_dialogue'', ''write_section''] =
          concat (replicate 1 turn_trace) @ [''save_dialogue'', ''write_section''] \<and>
        count_list (concat (replicate 1 turn_trace) @ [''save_dialogue'', ''write_section''])
          ''ask_question'' = 1 \<and>
        (\<forall>k. 1 \<le> k \<and> k \<le> 1 \<longrightarrow>
          (\<exists>sk. turns env k s = Inr sk \<and> num_responses (messages sk) ''local'' = k \<and>
            int (num_responses (messages sk) ''local'') \<le> int 1 \<and>
            route_messages sk ''local'' =
              Inr (if k < 1 then ''ask_question'' else ''save_dialogue'')))"
    using sf routes cl unfolding tr by blast
  then show ?thesis
    unfolding concludes_after_def by blast
qed

text \<open>
  C3. Interview loop termination. Take any start of the sub-workflow with a traveler
  and a city, whose conversation holds no answer named \<open>local\<close> yet, and a traveler
  whose questions never contain the closing phrase. If the state configures
  \<open>max_num_turns\<close> as \<open>n \<ge> 1\<close>, the interview concludes after exactly \<open>n\<close> turns: the
  run returns, \<open>ask_question\<close> has run exactly \<open>n\<close> times before \<open>save_dialogue\<close> and
  \<open>write_section\<close>, and after the \<open>k\<close>-th pass the count the router relies on is \<open>k\<close>,
  so it grows by one per pass and never exceeds \<open>n\<close>, with the router answering
  \<open>ask_question\<close> for \<open>k < n\<close> and \<open>save_dialogue\<close> for \<open>k = n\<close>. Without the key the
  default of 2 takes its place, and every seed the fan-out sends configures 2. The
  graph asks before it routes: a state that configures a maximum below 1, which no
  seed of the fan-out does, concludes after one turn. Whatever the state configures,
  the run of the sub-workflow returns: the loop terminates.
\<close>

theorem interview_loop_terminates:
  assumes "traveler s = Some t" and "ds_city s = Some c"
    and "num_responses (messages s) ''local'' = 0"
    and "\<forall>p ms. \<not> sublist closing_phrase (question_llm env p ms)"
  shows "(\<forall>n. max_num_turns s = Some (int n) \<and> 1 \<le> n \<longrightarrow> concludes_after env s n) \<and>
         (max_num_turns s = None \<longrightarrow> concludes_after env s 2) \<and>
         (\<forall>m. max_num_turns s = Some m \<and> m < 1 \<longrightarrow> concludes_after env s 1) \<and>
         (\<forall>c' t'. max_num_turns (dialogue_seed c' t') = Some 2 \<and>
            concludes_after env (dialogue_seed c' t') 2) \<and>
         (\<exists>tr sf. run_dialogue env s = Inr (tr, sf))"
proof (intro conjI allI impI)
  fix n assume "max_num_turns s = Some (int n) \<and> 1 \<le> n"
  then have "effective_max s = int n" and "1 \<le> n"
    by (simp_all add: effective_max_def)
  with assms show "concludes_after env s n"
    by (intro loop_concludes)
next
  assume "max_num_turns s = None"
  then have "effective_max s = int 2" by (simp add: effective_max_def)
  with assms show "concludes_after env s 2"
    by (intro loop_concludes) simp_all
next
  fix m assume "max_num_turns s = Some m \<and> m < 1"
  then have "effective_max s \<le> 1" by (simp add: effective_max_def)
  with assms(1-3) show "concludes_after env s 1"
    by (rule loop_concludes_low)
next
  fix c' t'
  show "max_num_turns (dialogue_seed c' t') = Some 2"
    by (simp add: dialogue_seed_def)
  have "traveler (dialogue_seed c' t') = Some t'"
    and "ds_city (dialogue_seed c' t') = Some c'"
    and "num_responses (messages (dialogue_seed c' t')) ''local'' = 0"
    and "effective_max (dialogue_seed c' t') = int 2"
    by (simp_all add: dialogue_seed_def num_responses_def effective_max_def)
  with assms(4) show "concludes_after env (dialogue_seed c' t') 2"
    by (intro loop_concludes) simp_all
next
  from run_dialogue_total [OF assms(1,2), of env]
  show "\<exists>tr sf. run_dialogue env s = Inr (tr, sf)" by blast
qed

lemma example_never_closes:
  "\<forall>p ms. \<not> sublist closing_phrase (question_llm example_env p ms)"
  by (simp add: example_env_def closing_phrase_def sublist_code)

theorem interview_loop_terminates_witness:
  "(\<exists>tr sf. run_dialogue example_env ((dialogue_seed ''Kyoto'' alice)\<lparr>max_num_turns := Some 3\<rparr>)
        = Inr (tr, sf) \<and>
      tr = concat (replicate 3 turn_trace) @ [''save_dialogue'', ''write_section''] \<and>
      count_list tr ''ask_question'' = 3) \<and>
   (\<exists>tr sf. run_dialogue example_env (dialogue_seed ''Kyoto'' alice) = Inr (tr, sf) \<and>
      tr = concat (replicate 2 turn_trace) @ [''save_dialogue'', ''write_section''] \<and>
      count_list tr ''ask_question'' = 2) \<and>
   (\<exists>tr sf. run_dialogue example_env ((dialogue_seed ''Kyoto'' alice)\<lparr>max_num_turns := Some 0\<rparr>)
        = Inr (tr, sf) \<and>
      tr = turn_trace @ [''save_dialogue'', ''write_section''] \<and>
      count_list tr ''ask_question'' = 1)"
proof -
  define s3 where "s3 = (dialogue_seed ''Kyoto'' alice)\<lparr>max_num_turns := Some 3\<rparr>"
  define s0 where "s0 = (dialogue_seed ''Kyoto'' alice)\<lparr>max_num_turns := Some 0\<rparr>"
  have "traveler s3 = Some alice"
    and "ds_city s3 = Some ''Kyoto''"
    and "num_responses (messages s3) ''local'' = 0"
    by (simp_all add: s3_def dialogue_seed_def num_responses_def)
  note T = interview_loop_terminates [OF this example_never_closes]
  have "max_num_turns s3 = Some (int 3) \<and> 1 \<le> (3::nat)"
    by (simp add: s3_def dialogue_seed_def)
  with T have 3: "concludes_after example_env s3 3" by blast
  from T have 2: "concludes_after example_env (dialogue_seed ''Kyoto'' alice) 2" by blast
  have "traveler s0 = Some alice"
    and "ds_city s0 = Some ''Kyoto''"
    and "num_responses (messages s0) ''local'' = 0"
    by (simp_all add: s0_def dialogue_seed_def num_responses_def)
  note T0 = interview_loop_terminates [OF this example_never_closes]
  have "max_num_turns s0 = Some 0 \<and> (0::int) < 1"
    by (simp add: s0_def dialogue_seed_def)
  with T0 have "concludes_after example_env s0 1" by blast
  then obtain tr sf where "run_dialogue example_env s0 = Inr (tr, sf)"
    "tr = concat (replicate 1 turn_trace) @ [''save_dialogue'', ''write_section'']"
    "count_list tr ''ask_question'' = 1"
    unfolding concludes_after_def by blast
  then have 0: "\<exists>tr sf. run_dialogue example_env s0 = Inr (tr, sf) \<and>
      tr = turn_trace @ [''save_dialogue'', ''write_section''] \<and>
      count_list tr ''ask_question'' = 1"
    by simp
  from 3 2 0 show ?thesis
    unfolding concludes_after_def s3_def s0_def by blast
qed

lemma rounds_counts:
  assumes "\<forall>(q, a)\<in>set pairs. is_interviewer q \<and> msg_class a = AIMessage \<and> msg_name a = Some ''local''"
  shows "num_responses (concat (map (\<lambda>(q, a). [q, a]) pairs)) ''local'' = length pairs"
    and "interviewer_turns (concat (map (\<lambda>(q, a). [q, a]) pairs)) = length pairs"
  using assms
  by (induction pairs) (auto simp: num_responses_def interviewer_turns_def is_interviewer_def)

lemma interviewer_turns_append:
  "interviewer_turns (xs @ ys) = interviewer_turns xs + interviewer_turns ys"
  by (simp add: interviewer_turns_def)

lemma rounds_snoc:
  "concat (map (\<lambda>(q, a). [q, a]) (ps @ [(q, a)])) = concat (map (\<lambda>(q, a). [q, a]) ps) @ [q, a]"
  by simp

lemma route_on_rounds:
  assumes "\<forall>m\<in>set seed. msg_class m \<noteq> AIMessage"
    and "pairs \<noteq> []"
    and "\<forall>(q, a)\<in>set pairs. is_interviewer q \<and> msg_class a = AIMessage \<and> msg_name a = Some ''local''"
    and "messages s = seed @ concat (map (\<lambda>(q, a). [q, a]) pairs)"
  shows "route_messages s ''local'' =
           Inr (if conclude_condition s then ''save_dialogue'' else ''ask_question'') \<and>
         (conclude_condition s \<longleftrightarrow>
            (case max_num_turns s of None \<Rightarrow> 2 | Some mx \<Rightarrow> mx) \<le> int (length pairs) \<or>
            sublist closing_phrase (msg_content (fst (last pairs)))) \<and>
         interviewer_turns (messages s) = length pairs \<and>
         num_responses (messages s) ''local'' = length pairs \<and>
         last_interviewer (messages s) = Some (fst (last pairs)) \<and>
         messages s ! (length (messages s) - 2) = fst (last pairs)"
proof -
  from assms(2) obtain ps q a where ps: "pairs = ps @ [(q, a)]"
    by (cases pairs rule: rev_cases) auto
  define body where "body = seed @ concat (map (\<lambda>(q, a). [q, a]) ps)"
  have m: "messages s = body @ [q, a]"
    using assms(4) unfolding ps body_def by simp
  from assms(3) have qa: "is_interviewer q" "msg_class a = AIMessage" "msg_name a = Some ''local''"
    unfolding ps by auto
  have cnt: "num_responses (messages s) ''local'' = length pairs"
    "interviewer_turns (messages s) = length pairs"
    using rounds_counts [OF assms(3)] no_ai_counts [OF assms(1)]
    unfolding assms(4) by (simp_all add: num_responses_append interviewer_turns_append)
  have nth: "messages s ! (length (messages s) - 2) = q"
    using m by (simp add: nth_append)
  have li: "last_interviewer (messages s) = Some q"
    using m qa by (simp add: last_interviewer_def is_interviewer_def)
  have em: "effective_max s = (case max_num_turns s of None \<Rightarrow> 2 | Some mx \<Rightarrow> mx)"
    by (simp add: effective_max_def)
  have cc: "conclude_condition s \<longleftrightarrow>
      (case max_num_turns s of None \<Rightarrow> 2 | Some mx \<Rightarrow> mx) \<le> int (length pairs) \<or>
      sublist closing_phrase (msg_content q)"
    using li cnt by (simp add: conclude_condition_def)
  have len: "\<not> length (messages s) < 2" using m by simp
  have r: "route_messages s ''local'' =
      Inr (if (case max_num_turns s of None \<Rightarrow> 2 | Some mx \<Rightarrow> mx) \<le> int (length pairs) \<or>
              sublist closing_phrase (msg_content q)
           then ''save_dialogue'' else ''ask_question'')"
    using cnt nth len by (simp add: route_messages_def Let_def em)
  have lq: "fst (last pairs) = q" unfolding ps by simp
  from r cc cnt li nth show ?thesis unfolding lq by simp
qed

text \<open>The states the sub-workflow hands to the router have this shape.\<close>

lemma turns_rounds:
  assumes "turns env k s = Inr sk"
  shows "\<exists>pairs. length pairs = k \<and>
           (\<forall>(q, a)\<in>set pairs. is_interviewer q \<and> msg_class a = AIMessage \<and> msg_name a = Some ''local'') \<and>
           messages sk = messages s @ concat (map (\<lambda>(q, a). [q, a]) pairs)"
  using assms
proof (induction k arbitrary: sk)
  case 0
  then show ?case by simp
next
  case (Suc k)
  then obtain sj where sj: "turns env k s = Inr sj" "turn env sj = Inr sk"
    by (auto split: sum.splits)
  from Suc.IH [OF sj(1)] obtain pairs where
    p: "length pairs = k"
      "\<forall>(q, a)\<in>set pairs. is_interviewer q \<and> msg_class a = AIMessage \<and> msg_name a = Some ''local''"
      "messages sj = messages s @ concat (map (\<lambda>(q, a). [q, a]) pairs)"
    by blast
  from turn_messages [OF sj(2)] obtain tv q a where
    qd: "q = \<lparr>msg_class = AIMessage, msg_name = None,
                 msg_content = question_llm env (persona tv) (messages sj)\<rparr>"
    and qa0: "msg_class a = AIMessage" "msg_name a = Some ''local''"
      "messages sk = messages sj @ [q, a]"
    by auto
  from qd qa0 have qa: "msg_class q = AIMessage" "msg_name q = None"
      "msg_class a = AIMessage" "msg_name a = Some ''local''"
      "messages sk = messages sj @ [q, a]"
    by simp_all
  have "length (pairs @ [(q, a)]) = Suc k" using p(1) by simp
  moreover have "\<forall>(q, a)\<in>set (pairs @ [(q, a)]).
      is_interviewer q \<and> msg_class a = AIMessage \<and> msg_name a = Some ''local''"
    using p(2) qa by (auto simp: is_interviewer_def)
  moreover have "messages sk = messages s @ concat (map (\<lambda>(q, a). [q, a]) (pairs @ [(q, a)]))"
    using p(3) qa(5) by simp
  ultimately show ?case by blast
qed

text \<open>
  C4. The branch condition of \<open>route_messages\<close>, for every state the router is given.
  The conditional edge follows \<open>answer_question\<close>, so the router is given a state that
  one or more passes of the cycle have produced: its conversation is the one the
  sub-workflow started from, followed by one or more rounds of a question of the
  traveler and an answer named \<open>local\<close>. When the starting conversation holds no
  \<open>AIMessage\<close> (the fan-out seeds it with one \<open>HumanMessage\<close>), the router returns
  \<open>save_dialogue\<close> exactly when the interviewer turn count has reached the configured
  maximum or the most recent interviewer message holds the closing phrase, and
  \<open>ask_question\<close> in all other cases; the count of answers named \<open>local\<close> is that turn
  count and \<open>messages[-2]\<close> is that message.
\<close>

theorem route_decision_on_router_states:
  "(\<forall>k sk. 1 \<le> k \<and> turns env k (dialogue_seed c t) = Inr sk \<longrightarrow>
      route_messages sk ''local'' =
        Inr (if conclude_condition sk then ''save_dialogue'' else ''ask_question'') \<and>
      (route_messages sk ''local'' = Inr ''save_dialogue'' \<longleftrightarrow> conclude_condition sk) \<and>
      (route_messages sk ''local'' = Inr ''ask_question'' \<longleftrightarrow> \<not> conclude_condition sk) \<and>
      interviewer_turns (messages sk) = k) \<and>
   (\<forall>k sk. (\<forall>m\<in>set (messages s0). msg_class m \<noteq> AIMessage) \<and> 1 \<le> k \<and>
      turns env k s0 = Inr sk \<longrightarrow>
      route_messages sk ''local'' =
        Inr (if conclude_condition sk then ''save_dialogue'' else ''ask_question'') \<and>
      interviewer_turns (messages sk) = k \<and>
      num_responses (messages sk) ''local'' = k \<and>
      last_interviewer (messages sk) = Some (messages sk ! (length (messages sk) - 2))) \<and>
   ((\<forall>m\<in>set seed. msg_class m \<noteq> AIMessage) \<and> pairs \<noteq> [] \<and>
    (\<forall>(q, a)\<in>set pairs. is_interviewer q \<and> msg_class a = AIMessage \<and> msg_name a = Some ''local'') \<and>
    messages s = seed @ concat (map (\<lambda>(q, a). [q, a]) pairs) \<longrightarrow>
      route_messages s ''local'' =
        Inr (if conclude_condition s then ''save_dialogue'' else ''ask_question'') \<and>
      (conclude_condition s \<longleftrightarrow>
         (case max_num_turns s of None \<Rightarrow> 2 | Some mx \<Rightarrow> mx) \<le> int (length pairs) \<or>
         sublist closing_phrase (msg_content (fst (last pairs)))) \<and>
      interviewer_turns (messages s) = length pairs \<and>
      last_interviewer (messages s) = Some (fst (last pairs)))"
proof -
  have reached: "route_messages sk ''local'' =
        Inr (if conclude_condition sk then ''save_dialogue'' else ''ask_question'') \<and>
      interviewer_turns (messages sk) = k \<and>
      num_responses (messages sk) ''local'' = k \<and>
      last_interviewer (messages sk) = Some (messages sk ! (length (messages sk) - 2))"
    if h: "\<forall>m\<in>set (messages st). msg_class m \<noteq> AIMessage" "1 \<le> k" "turns env k st = Inr sk"
    for k sk st
  proof -
    from turns_rounds [OF h(3)] obtain pairs where
      p: "length pairs = k"
        "\<forall>(q, a)\<in>set pairs. is_interviewer q \<and> msg_class a = AIMessage \<and> msg_name a = Some ''local''"
        "messages sk = messages st @ concat (map (\<lambda>(q, a). [q, a]) pairs)"
      by blast
    from p(1) h(2) have ne: "pairs \<noteq> []" by auto
    from route_on_rounds [OF h(1) ne p(2,3)] p(1) show ?thesis by simp
  qed
  have seed_ok: "\<forall>m\<in>set (messages (dialogue_seed c t)). msg_class m \<noteq> AIMessage"
    by (simp add: dialogue_seed_def)
  have 1: "route_messages sk ''local'' =
        Inr (if conclude_condition sk then ''save_dialogue'' else ''ask_question'') \<and>
      (route_messages sk ''local'' = Inr ''save_dialogue'' \<longleftrightarrow> conclude_condition sk) \<and>
      (route_messages sk ''local'' = Inr ''ask_question'' \<longleftrightarrow> \<not> conclude_condition sk) \<and>
      interviewer_turns (messages sk) = k"
    if "1 \<le> k \<and> turns env k (dialogue_seed c t) = Inr sk" for k sk
  proof -
    from that have "1 \<le> k" "turns env k (dialogue_seed c t) = Inr sk" by blast+
    from reached [OF seed_ok this] show ?thesis by simp
  qed
  have 2: "route_messages sk ''local'' =
        Inr (if conclude_condition sk then ''save_dialogue'' else ''ask_question'') \<and>
      interviewer_turns (messages sk) = k \<and>
      num_responses (messages sk) ''local'' = k \<and>
      last_interviewer (messages sk) = Some (messages sk ! (length (messages sk) - 2))"
    if "(\<forall>m\<in>set (messages s0). msg_class m \<noteq> AIMessage) \<and> 1 \<le> k \<and> turns env k s0 = Inr sk"
    for k sk
  proof -
    from that have "\<forall>m\<in>set (messages s0). msg_class m \<noteq> AIMessage" "1 \<le> k"
      "turns env k s0 = Inr sk" by blast+
    then show ?thesis by (rule reached)
  qed
  have 3: "route_messages s ''local'' =
        Inr (if conclude_condition s then ''save_dialogue'' else ''ask_question'') \<and>
      (conclude_condition s \<longleftrightarrow>
         (case max_num_turns s of None \<Rightarrow> 2 | Some mx \<Rightarrow> mx) \<le> int (length pairs) \<or>
         sublist closing_phrase (msg_content (fst (last pairs)))) \<and>
      interviewer_turns (messages s) = length pairs \<and>
      last_interviewer (messages s) = Some (fst (last pairs))"
    if "(\<forall>m\<in>set seed. msg_class m \<noteq> AIMessage) \<and> pairs \<noteq> [] \<and>
      (\<forall>(q, a)\<in>set pairs. is_interviewer q \<and> msg_class a = AIMessage \<and> msg_name a = Some ''local'') \<and>
      messages s = seed @ concat (map (\<lambda>(q, a). [q, a]) pairs)"
  proof -
    from that have "\<forall>m\<in>set seed. msg_class m \<noteq> AIMessage" "pairs \<noteq> []"
      "\<forall>(q, a)\<in>set pairs. is_interviewer q \<and> msg_class a = AIMessage \<and> msg_name a = Some ''local''"
      "messages s = seed @ concat (map (\<lambda>(q, a). [q, a]) pairs)"
      by blast+
    from route_on_rounds [OF this] show ?thesis by blast
  qed
  from 1 2 3 show ?thesis by blast
qed

theorem route_decision_on_router_states_witness:
  "(\<exists>sk. turns example_env 1 (dialogue_seed ''Kyoto'' alice) = Inr sk \<and>
      route_messages sk ''local'' = Inr ''ask_question'' \<and> \<not> conclude_condition sk \<and>
      interviewer_turns (messages sk) = 1) \<and>
   (\<exists>sk. turns example_env 2 (dialogue_seed ''Kyoto'' alice) = Inr sk \<and>
      route_messages sk ''local'' = Inr ''save_dialogue'' \<and> conclude_condition sk \<and>
      interviewer_turns (messages sk) = 2) \<and>
   route_messages after_one_round ''local'' =
     Inr (if conclude_condition after_one_round then ''save_dialogue'' else ''ask_question'')"
proof -
  have tc: "traveler (dialogue_seed ''Kyoto'' alice) = Some alice"
    "ds_city (dialogue_seed ''Kyoto'' alice) = Some ''Kyoto''"
    by (simp_all add: dialogue_seed_def)
  define q where "q = \<lparr>msg_class = AIMessage, msg_name = None, msg_content = ''What should I see?''\<rparr>"
  define a where "a = \<lparr>msg_class = AIMessage, msg_name = Some ''local'', msg_content = ''The old town.''\<rparr>"
  note T = route_decision_on_router_states
    [of example_env "''Kyoto''" alice "dialogue_seed ''Kyoto'' alice"
        "messages (dialogue_seed ''Kyoto'' alice)" "[(q, a)]" after_one_round]
  have mx: "(case max_num_turns sk of None \<Rightarrow> 2 | Some mx \<Rightarrow> mx) = 2"
    if "turns example_env k (dialogue_seed ''Kyoto'' alice) = Inr sk" for k sk
  proof -
    from turns_counts [OF that] have "effective_max sk = effective_max (dialogue_seed ''Kyoto'' alice)"
      by blast
    then show ?thesis by (simp add: effective_max_def dialogue_seed_def)
  qed
  have part: "\<exists>sk. turns example_env k (dialogue_seed ''Kyoto'' alice) = Inr sk \<and>
      route_messages sk ''local'' = Inr (if 2 \<le> k then ''save_dialogue'' else ''ask_question'') \<and>
      (conclude_condition sk \<longleftrightarrow> 2 \<le> k) \<and> interviewer_turns (messages sk) = k"
    if k: "1 \<le> k" for k
  proof -
    from turns_shape [OF tc, of example_env k] obtain sk where
      sk: "turns example_env k (dialogue_seed ''Kyoto'' alice) = Inr sk" by blast
    from T k sk have r: "route_messages sk ''local'' =
        Inr (if conclude_condition sk then ''save_dialogue'' else ''ask_question'')"
      and n: "interviewer_turns (messages sk) = k"
      and li: "last_interviewer (messages sk) = Some (messages sk ! (length (messages sk) - 2))"
      by (auto simp: dialogue_seed_def)
    from k obtain j where j: "k = Suc j" by (cases k) auto
    with sk obtain sj where sj: "turn example_env sj = Inr sk" by (auto split: sum.splits)
    from last_interviewer_after_turn [OF sj] obtain tv where
      "last_interviewer (messages sk) =
         Some \<lparr>msg_class = AIMessage, msg_name = None,
               msg_content = question_llm example_env (persona tv) (messages sj)\<rparr>"
      by blast
    then have "conclude_condition sk \<longleftrightarrow> 2 \<le> k"
      using mx [OF sk] n example_never_closes by (simp add: conclude_condition_def)
    with r n sk show ?thesis by auto
  qed
  from part [of 1] have 1: "\<exists>sk. turns example_env 1 (dialogue_seed ''Kyoto'' alice) = Inr sk \<and>
      route_messages sk ''local'' = Inr ''ask_question'' \<and> \<not> conclude_condition sk \<and>
      interviewer_turns (messages sk) = 1"
    by auto
  from part [of 2] have 2: "\<exists>sk. turns example_env 2 (dialogue_seed ''Kyoto'' alice) = Inr sk \<and>
      route_messages sk ''local'' = Inr ''save_dialogue'' \<and> conclude_condition sk \<and>
      interviewer_turns (messages sk) = 2"
    by auto
  have s1: "\<forall>m\<in>set (messages (dialogue_seed ''Kyoto'' alice)). msg_class m \<noteq> AIMessage"
    by (simp add: dialogue_seed_def)
  have s3: "\<forall>(q, a)\<in>set [(q, a)]. is_interviewer q \<and> msg_class a = AIMessage \<and> msg_name a = Some ''local''"
    by (simp add: q_def a_def is_interviewer_def)
  have s4: "messages after_one_round =
      messages (dialogue_seed ''Kyoto'' alice) @ concat (map (\<lambda>(q, a). [q, a]) [(q, a)])"
    by (simp add: after_one_round_def q_def a_def)
  from T s1 s3 s4 have 3: "route_messages after_one_round ''local'' =
     Inr (if conclude_condition after_one_round then ''save_dialogue'' else ''ask_question'')"
    by blast
  from 1 2 3 show ?thesis by blast
qed

section \<open>Main workflow: routing, merging and the plan node\<close>

lemma successors_values:
  "successors START = [''get_weather_info'']"
  "successors ''get_weather_info'' = [''create_travelers'']"
  "successors ''create_travelers'' = [''human_feedback_traveler_node'']"
  "successors ''human_feedback_traveler_node'' = []"
  "successors ''conduct_dialogue_sub'' = [''write_plan'']"
  "successors ''write_plan'' = [END]"
  by (simp_all add: successors_def main_edges_def START_def END_def)

lemma router_cases:
  "conduct_dialogue_router s =
     (if human_feedback_traveler s = None \<or> human_feedback_traveler s = Some []
      then Fanout (map (\<lambda>t. \<lparr>send_node = ''conduct_dialogue_sub'',
                               send_arg = dialogue_seed (case city s of None \<Rightarrow> [] | Some c \<Rightarrow> c) t\<rparr>)
                     (case travelers s of None \<Rightarrow> [] | Some ts \<Rightarrow> ts))
      else Goto ''create_travelers'')"
  by (auto simp: conduct_dialogue_router_def Let_def split: option.splits)

lemma next_frontier_feedback:
  "next_frontier s [Run ''human_feedback_traveler_node''] =
     (case conduct_dialogue_router s of Goto m \<Rightarrow> (if m = END then [] else [Run m])
      | Fanout sends \<Rightarrow> map Spawn sends)"
proof (cases "conduct_dialogue_router s")
  case (Goto m)
  then show ?thesis
    by (simp add: next_frontier_def conditional_sources_def)
next
  case (Fanout sends)
  have "filter is_spawn (map Spawn sends) = map Spawn sends"
    by (induction sends) auto
  moreover have "filter (\<lambda>t. \<not> is_spawn t) (map Spawn sends) = []"
    by (induction sends) auto
  ultimately show ?thesis
    using Fanout by (simp add: next_frontier_def conditional_sources_def)
qed

text \<open>
  C2. The router after the persona-feedback interrupt. A non-empty feedback text sends
  the run back to \<open>create_travelers\<close>. With the feedback empty or absent the router
  returns one \<open>Send\<close> per traveler, in the order of \<open>travelers\<close>, each to
  \<open>conduct_dialogue_sub\<close> with that traveler in its seed; the tasks that follow
  \<open>human_feedback_traveler_node\<close> are then exactly these sub-executions, so persona
  generation is not scheduled again.
\<close>

theorem router_after_feedback:
  "(\<forall>fb. human_feedback_traveler s = Some fb \<and> fb \<noteq> [] \<longrightarrow>
      conduct_dialogue_router s = Goto ''create_travelers'' \<and>
      next_frontier s [Run ''human_feedback_traveler_node''] = [Run ''create_travelers'']) \<and>
   (human_feedback_traveler s = None \<or> human_feedback_traveler s = Some [] \<longrightarrow>
      (\<exists>sends. conduct_dialogue_router s = Fanout sends \<and>
         length sends = length (case travelers s of None \<Rightarrow> [] | Some ts \<Rightarrow> ts) \<and>
         map send_node sends = replicate (length sends) ''conduct_dialogue_sub'' \<and>
         map (\<lambda>sd. traveler (send_arg sd)) sends =
           map Some (case travelers s of None \<Rightarrow> [] | Some ts \<Rightarrow> ts) \<and>
         next_frontier s [Run ''human_feedback_traveler_node''] = map Spawn sends \<and>
         Run ''create_travelers'' \<notin> set (next_frontier s [Run ''human_feedback_traveler_node''])))"
proof (intro conjI allI impI)
  fix fb
  assume "human_feedback_traveler s = Some fb \<and> fb \<noteq> []"
  then show "conduct_dialogue_router s = Goto ''create_travelers''"
    by (simp add: router_cases)
  then show "next_frontier s [Run ''human_feedback_traveler_node''] = [Run ''create_travelers'']"
    by (simp add: next_frontier_feedback END_def)
next
  assume a: "human_feedback_traveler s = None \<or> human_feedback_traveler s = Some []"
  define ts where "ts = (case travelers s of None \<Rightarrow> [] | Some ts \<Rightarrow> ts)"
  define c where "c = (case city s of None \<Rightarrow> [] | Some c \<Rightarrow> c)"
  define sends where
    "sends = map (\<lambda>t. \<lparr>send_node = ''conduct_dialogue_sub'', send_arg = dialogue_seed c t\<rparr>) ts"
  have r: "conduct_dialogue_router s = Fanout sends"
    using a by (auto simp: router_cases sends_def ts_def c_def)
  have "map send_node sends = replicate (length sends) ''conduct_dialogue_sub''"
    by (simp add: sends_def comp_def map_replicate_const)
  moreover have "map (\<lambda>sd. traveler (send_arg sd)) sends = map Some ts"
    by (simp add: sends_def dialogue_seed_def comp_def)
  moreover have n: "next_frontier s [Run ''human_feedback_traveler_node''] = map Spawn sends"
    using r by (simp add: next_frontier_feedback)
  moreover have "Run ''create_travelers'' \<notin> set (next_frontier s [Run ''human_feedback_traveler_node''])"
    unfolding n by auto
  moreover have "length sends = length ts" by (simp add: sends_def)
  ultimately show "\<exists>sends. conduct_dialogue_router s = Fanout sends \<and>
         length sends = length (case travelers s of None \<Rightarrow> [] | Some ts \<Rightarrow> ts) \<and>
         map send_node sends = replicate (length sends) ''conduct_dialogue_sub'' \<and>
         map (\<lambda>sd. traveler (send_arg sd)) sends =
           map Some (case travelers s of None \<Rightarrow> [] | Some ts \<Rightarrow> ts) \<and>
         next_frontier s [Run ''human_feedback_traveler_node''] = map Spawn sends \<and>
         Run ''create_travelers'' \<notin> set (next_frontier s [Run ''human_feedback_traveler_node''])"
    using r unfolding ts_def by blast
qed

theorem router_after_feedback_witness:
  "conduct_dialogue_router (kyoto\<lparr>human_feedback_traveler := Some ''More food, please'',
                                  travelers := Some [alice, bob]\<rparr>) = Goto ''create_travelers'' \<and>
   (\<exists>sends. conduct_dialogue_router (kyoto\<lparr>human_feedback_traveler := Some [],
                                            travelers := Some [alice, bob]\<rparr>) = Fanout sends \<and>
      length sends = 2 \<and>
      next_frontier (kyoto\<lparr>human_feedback_traveler := Some [], travelers := Some [alice, bob]\<rparr>)
        [Run ''human_feedback_traveler_node''] = map Spawn sends)"
  using router_after_feedback [of "kyoto\<lparr>human_feedback_traveler := Some ''More food, please'',
                                       travelers := Some [alice, bob]\<rparr>"]
    router_after_feedback [of "kyoto\<lparr>human_feedback_traveler := Some [],
                                       travelers := Some [alice, bob]\<rparr>"]
  by (auto simp: kyoto_def)



section \<open>Main workflow: the run\<close>

lemma run_graph_empty: "run_graph env ins [] s = ([], s, Completed)"
  by (subst run_graph.simps) simp

lemma run_graph_step:
  assumes "fr \<noteq> []" and "\<not> (interrupted fr \<and> ins = [])"
  shows "run_graph env ins fr s =
     (case exec_step env fr (if interrupted fr then merge_state s (hd ins) else s) of
        Inl (n, e) \<Rightarrow>
          ([(fr, if interrupted fr then merge_state s (hd ins) else s)],
           if interrupted fr then merge_state s (hd ins) else s, Failed n e)
      | Inr s1 \<Rightarrow>
          (case run_graph env (if interrupted fr then tl ins else ins) (next_frontier s1 fr) s1 of
             (tr, sf, st) \<Rightarrow>
               ((fr, if interrupted fr then merge_state s (hd ins) else s) # tr, sf, st)))"
  using assms by (subst run_graph.simps) (simp add: Let_def)

lemma interrupted_single:
  "interrupted [Run ''human_feedback_traveler_node'']"
  "\<not> interrupted [Run ''get_weather_info'']"
  "\<not> interrupted [Run ''create_travelers'']"
  "\<not> interrupted [Run ''write_plan'']"
  by (simp_all add: interrupted_def interrupt_before_def)

lemma interrupted_spawn: "\<not> interrupted (map Spawn sends)"
  by (induction sends) (simp_all add: interrupted_def)

lemma node_body_values:
  "node_body env ''get_weather_info'' s = Inr (get_weather_info env s)"
  "node_body env ''create_travelers'' s = create_travelers env s"
  "node_body env ''human_feedback_traveler_node'' s = Inr (feedback_traveler s)"
  "node_body env ''write_plan'' s = write_plan env s"
  by (simp_all add: node_body_def)

lemma exec_step_single:
  "exec_step env [Run n] s =
     (case node_body env n s of Inl e \<Rightarrow> Inl (n, e) | Inr u \<Rightarrow> Inr (merge_state s u))"
  by (simp add: exec_step_def split: sum.splits)

lemma next_frontier_static:
  "next_frontier s [Run ''get_weather_info''] = [Run ''create_travelers'']"
  "next_frontier s [Run ''create_travelers''] = [Run ''human_feedback_traveler_node'']"
  "next_frontier s [Run ''write_plan''] = []"
  by (simp_all add: next_frontier_def conditional_sources_def successors_values END_def)

lemma merge_state_no_update: "merge_state s no_update = s"
  by (simp add: merge_state_def no_update_def replace_field_def)

lemma merge_state_sections_only:
  "merge_state s (no_update\<lparr>up_sections := Some xs\<rparr>) =
     s\<lparr>sections := Some ((case sections s of None \<Rightarrow> [] | Some ys \<Rightarrow> ys) @ xs)\<rparr>"
  by (simp add: merge_state_def no_update_def replace_field_def)

lemma fold_merge_sections:
  "fold (\<lambda>u st. merge_state st u) (map (\<lambda>x. no_update\<lparr>up_sections := Some [x]\<rparr>) secs) s =
     (if secs = [] then s
      else s\<lparr>sections := Some ((case sections s of None \<Rightarrow> [] | Some ys \<Rightarrow> ys) @ secs)\<rparr>)"
proof (induction secs arbitrary: s)
  case Nil
  then show ?case by simp
next
  case (Cons x secs)
  show ?case
    by (simp add: Cons.IH merge_state_sections_only)
qed

text \<open>
  Every sub-execution the router seeds runs to its end and hands back exactly one
  section.
\<close>

lemma run_task_spawn:
  assumes "traveler (send_arg sd) = Some t" "ds_city (send_arg sd) = Some c"
    "ds_sections (send_arg sd) = []"
  shows "\<exists>dtr dsf sec. run_dialogue env (send_arg sd) = Inr (dtr, dsf) \<and> ds_sections dsf = [sec] \<and>
           run_task env s (Spawn sd) = Inr (no_update\<lparr>up_sections := Some [sec]\<rparr>)"
proof -
  from run_dialogue_total [OF assms(1,2), of env] assms(3) obtain dtr dsf sec where
    "run_dialogue env (send_arg sd) = Inr (dtr, dsf)" "ds_sections dsf = [sec]"
    by auto
  then show ?thesis by simp
qed

lemma run_tasks_spawn:
  assumes "\<forall>sd\<in>set sends. \<exists>t c. traveler (send_arg sd) = Some t \<and> ds_city (send_arg sd) = Some c \<and>
             ds_sections (send_arg sd) = []"
  shows "\<exists>secs. length secs = length sends \<and>
           run_tasks env s (map Spawn sends) = Inr (map (\<lambda>x. no_update\<lparr>up_sections := Some [x]\<rparr>) secs)"
  using assms
proof (induction sends)
  case Nil
  then show ?case by simp
next
  case (Cons sd sends)
  then obtain t c where "traveler (send_arg sd) = Some t" "ds_city (send_arg sd) = Some c"
    "ds_sections (send_arg sd) = []"
    by auto
  from run_task_spawn [OF this, of env s] obtain sec where
    sec: "run_task env s (Spawn sd) = Inr (no_update\<lparr>up_sections := Some [sec]\<rparr>)" by blast
  from Cons obtain secs where secs: "length secs = length sends"
    "run_tasks env s (map Spawn sends) = Inr (map (\<lambda>x. no_update\<lparr>up_sections := Some [x]\<rparr>) secs)"
    by auto
  have "length (sec # secs) = length (sd # sends)" using secs(1) by simp
  moreover have "run_tasks env s (map Spawn (sd # sends)) =
      Inr (map (\<lambda>x. no_update\<lparr>up_sections := Some [x]\<rparr>) (sec # secs))"
    using sec secs(2) by simp
  ultimately show ?case by blast
qed

lemma next_frontier_spawn:
  assumes "sends \<noteq> []" "\<forall>sd\<in>set sends. send_node sd = ''conduct_dialogue_sub''"
  shows "next_frontier s (map Spawn sends) = [Run ''write_plan'']"
proof -
  have "concat (map (next_tasks s) (map Spawn sends)) = replicate (length sends) (Run ''write_plan'')"
    using assms(2) by (induction sends) (simp_all add: successors_values)
  moreover have "remdups (replicate n x) = (if n = 0 then [] else [x])" for n and x :: task
    by (induction n) auto
  ultimately show ?thesis
    using assms(1) by (simp add: next_frontier_def END_def)
qed

text \<open>
  The run from the interrupt, resumed with traveler feedback that is empty or absent,
  over at least one traveler: three steps.
\<close>

lemma resume_fan_out:
  assumes fb: "human_feedback_traveler (merge_state s u) = None \<or>
               human_feedback_traveler (merge_state s u) = Some []"
    and ts: "travelers (merge_state s u) = Some ts" "ts \<noteq> []"
  shows "\<exists>sends secs.
     conduct_dialogue_router (merge_state s u) = Fanout sends \<and>
     length sends = length ts \<and> length secs = length ts \<and>
     map (\<lambda>sd. traveler (send_arg sd)) sends = map Some ts \<and>
     (\<forall>sd\<in>set sends. \<exists>dtr dsf sec. run_dialogue env (send_arg sd) = Inr (dtr, dsf) \<and>
        ds_sections dsf = [sec]) \<and>
     exec_step env (map Spawn sends) (merge_state s u) =
       Inr ((merge_state s u)
              \<lparr>sections := Some ((case sections (merge_state s u) of None \<Rightarrow> [] | Some ys \<Rightarrow> ys) @ secs)\<rparr>) \<and>
     run_graph env (u # rest) [Run ''human_feedback_traveler_node''] s =
       (case write_plan env ((merge_state s u)
              \<lparr>sections := Some ((case sections (merge_state s u) of None \<Rightarrow> [] | Some ys \<Rightarrow> ys) @ secs)\<rparr>) of
          Inl e \<Rightarrow>
            ([([Run ''human_feedback_traveler_node''], merge_state s u),
              (map Spawn sends, merge_state s u),
              ([Run ''write_plan''], (merge_state s u)
                 \<lparr>sections := Some ((case sections (merge_state s u) of None \<Rightarrow> [] | Some ys \<Rightarrow> ys) @ secs)\<rparr>)],
             (merge_state s u)
                 \<lparr>sections := Some ((case sections (merge_state s u) of None \<Rightarrow> [] | Some ys \<Rightarrow> ys) @ secs)\<rparr>,
             Failed ''write_plan'' e)
        | Inr up \<Rightarrow>
            ([([Run ''human_feedback_traveler_node''], merge_state s u),
              (map Spawn sends, merge_state s u),
              ([Run ''write_plan''], (merge_state s u)
                 \<lparr>sections := Some ((case sections (merge_state s u) of None \<Rightarrow> [] | Some ys \<Rightarrow> ys) @ secs)\<rparr>)],
             merge_state ((merge_state s u)
                 \<lparr>sections := Some ((case sections (merge_state s u) of None \<Rightarrow> [] | Some ys \<Rightarrow> ys) @ secs)\<rparr>) up,
             Completed))"
proof -
  define s0 where "s0 = merge_state s u"
  define c where "c = (case city s0 of None \<Rightarrow> [] | Some c \<Rightarrow> c)"
  define sends where
    "sends = map (\<lambda>t. \<lparr>send_node = ''conduct_dialogue_sub'', send_arg = dialogue_seed c t\<rparr>) ts"
  have r: "conduct_dialogue_router s0 = Fanout sends"
    using fb ts(1) by (auto simp: router_cases sends_def c_def s0_def)
  have len: "length sends = length ts" by (simp add: sends_def)
  have ne: "sends \<noteq> []" using ts(2) by (simp add: sends_def)
  have trav: "map (\<lambda>sd. traveler (send_arg sd)) sends = map Some ts"
    by (simp add: sends_def dialogue_seed_def comp_def)
  have seeds: "\<forall>sd\<in>set sends. \<exists>t c. traveler (send_arg sd) = Some t \<and>
      ds_city (send_arg sd) = Some c \<and> ds_sections (send_arg sd) = []"
    by (auto simp: sends_def dialogue_seed_def)
  have nodes: "\<forall>sd\<in>set sends. send_node sd = ''conduct_dialogue_sub''"
    by (auto simp: sends_def)
  have subs: "\<forall>sd\<in>set sends. \<exists>dtr dsf sec. run_dialogue env (send_arg sd) = Inr (dtr, dsf) \<and>
        ds_sections dsf = [sec]"
  proof
    fix sd assume "sd \<in> set sends"
    with seeds obtain t c where "traveler (send_arg sd) = Some t" "ds_city (send_arg sd) = Some c"
      "ds_sections (send_arg sd) = []" by blast
    from run_task_spawn [OF this, of env s0]
    show "\<exists>dtr dsf sec. run_dialogue env (send_arg sd) = Inr (dtr, dsf) \<and> ds_sections dsf = [sec]"
      by blast
  qed
  from run_tasks_spawn [OF seeds, of env s0] obtain secs where
    secs: "length secs = length sends"
      "run_tasks env s0 (map Spawn sends) = Inr (map (\<lambda>x. no_update\<lparr>up_sections := Some [x]\<rparr>) secs)"
    by blast
  define s2 where
    "s2 = s0\<lparr>sections := Some ((case sections s0 of None \<Rightarrow> [] | Some ys \<Rightarrow> ys) @ secs)\<rparr>"
  have secs_ne: "secs \<noteq> []" using secs(1) ne by auto
  have ex: "exec_step env (map Spawn sends) s0 = Inr s2"
    using secs(2) secs_ne by (simp add: exec_step_def fold_merge_sections s2_def)
  have step3: "run_graph env rest [Run ''write_plan''] s2 =
      (case write_plan env s2 of
         Inl e \<Rightarrow> ([([Run ''write_plan''], s2)], s2, Failed ''write_plan'' e)
       | Inr up \<Rightarrow> ([([Run ''write_plan''], s2)], merge_state s2 up, Completed))"
    by (subst run_graph_step)
      (simp_all add: interrupted_single exec_step_single node_body_values next_frontier_static
        run_graph_empty split: sum.splits)
  have step2: "run_graph env rest (map Spawn sends) s0 =
      (case run_graph env rest [Run ''write_plan''] s2 of
         (tr, sf, st) \<Rightarrow> ((map Spawn sends, s0) # tr, sf, st))"
    using ne
    by (subst run_graph_step)
      (simp_all add: interrupted_spawn ex next_frontier_spawn [OF ne nodes])
  have step1: "run_graph env (u # rest) [Run ''human_feedback_traveler_node''] s =
      (case run_graph env rest (map Spawn sends) s0 of
         (tr, sf, st) \<Rightarrow> (([Run ''human_feedback_traveler_node''], s0) # tr, sf, st))"
    by (subst run_graph_step)
      (simp_all add: interrupted_single exec_step_single node_body_values feedback_traveler_def
        merge_state_no_update next_frontier_feedback r s0_def [symmetric])
  have run: "run_graph env (u # rest) [Run ''human_feedback_traveler_node''] s =
       (case write_plan env s2 of
          Inl e \<Rightarrow>
            ([([Run ''human_feedback_traveler_node''], s0), (map Spawn sends, s0),
              ([Run ''write_plan''], s2)], s2, Failed ''write_plan'' e)
        | Inr up \<Rightarrow>
            ([([Run ''human_feedback_traveler_node''], s0), (map Spawn sends, s0),
              ([Run ''write_plan''], s2)], merge_state s2 up, Completed))"
    by (simp add: step1 step2 step3 split: sum.splits)
  from r len secs(1) trav subs ex run show ?thesis
    unfolding s2_def s0_def by (intro exI [of _ sends] exI [of _ secs]) simp
qed

lemma start_run_to_interrupt:
  assumes "city s = Some c" "days s = Some d" "max_travelers s = Some mt"
  shows "start_run env ins s =
     (case run_graph env ins [Run ''human_feedback_traveler_node'']
             (s\<lparr>weather := Some (get_weather env c d),
                travelers := Some (travelers_llm env c (get_weather env c d) d
                    (case human_feedback_traveler s of None \<Rightarrow> [] | Some f \<Rightarrow> f) mt)\<rparr>) of
        (tr, sf, st) \<Rightarrow>
          (([Run ''get_weather_info''], s) #
           ([Run ''create_travelers''], s\<lparr>weather := Some (get_weather env c d)\<rparr>) # tr, sf, st))"
proof -
  define w where "w = get_weather env c d"
  define sA where "sA = s\<lparr>weather := Some w\<rparr>"
  define tvs where "tvs = travelers_llm env c w d
      (case human_feedback_traveler s of None \<Rightarrow> [] | Some f \<Rightarrow> f) mt"
  define sB where "sB = s\<lparr>weather := Some w, travelers := Some tvs\<rparr>"
  have gw: "merge_state s (get_weather_info env s) = sA"
    using assms
    by (simp add: get_weather_info_def merge_state_def no_update_def replace_field_def
        sA_def w_def)
  have ct: "create_travelers env sA = Inr (no_update\<lparr>up_travelers := Some tvs\<rparr>)"
    using assms by (simp add: create_travelers_def sA_def tvs_def)
  have mB: "merge_state sA (no_update\<lparr>up_travelers := Some tvs\<rparr>) = sB"
    by (simp add: merge_state_def no_update_def replace_field_def sA_def sB_def)
  have step2: "run_graph env ins [Run ''create_travelers''] sA =
      (case run_graph env ins [Run ''human_feedback_traveler_node''] sB of
         (tr, sf, st) \<Rightarrow> (([Run ''create_travelers''], sA) # tr, sf, st))"
    by (subst run_graph_step)
      (simp_all add: interrupted_single exec_step_single node_body_values ct mB
        next_frontier_static)
  have step1: "run_graph env ins [Run ''get_weather_info''] s =
      (case run_graph env ins [Run ''create_travelers''] sA of
         (tr, sf, st) \<Rightarrow> (([Run ''get_weather_info''], s) # tr, sf, st))"
    by (subst run_graph_step)
      (simp_all add: interrupted_single exec_step_single node_body_values gw
        next_frontier_static)
  show ?thesis
    unfolding start_run_def successors_values
    using step1 step2
    by (simp add: sA_def sB_def w_def tvs_def split: prod.splits)
qed










lemma initiate_all_plans_cases:
  "initiate_all_plans s =
     (if human_feedback_plan s = None \<or> human_feedback_plan s = Some [] then END else ''write_plan'')"
  by (auto simp: initiate_all_plans_def Let_def split: option.splits)

lemma plan_router_not_wired:
  "''initiate_all_plans'' \<notin> set (map fst main_edges) \<union> set (map snd main_edges) \<union>
      set conditional_sources \<union> set interrupt_before"
  "''feedback_plan'' \<notin> set (map fst main_edges) \<union> set (map snd main_edges) \<union>
      set conditional_sources \<union> set interrupt_before"
  by (simp_all add: main_edges_def conditional_sources_def interrupt_before_def START_def END_def)

lemma fan_out_then_plan:
  "((human_feedback_traveler (merge_state s u) = None \<or>
     human_feedback_traveler (merge_state s u) = Some []) \<and>
    travelers (merge_state s u) = Some ts \<and> ts \<noteq> [] \<longrightarrow>
    (\<exists>sends s2 sf st.
       run_graph env (u # rest) [Run ''human_feedback_traveler_node''] s =
         ([([Run ''human_feedback_traveler_node''], merge_state s u),
           (map Spawn sends, merge_state s u),
           ([Run ''write_plan''], s2)], sf, st) \<and>
       length sends = length ts \<and>
       (\<forall>fbp c d w. human_feedback_plan (merge_state s u) = Some fbp \<and>
          city (merge_state s u) = Some c \<and> days (merge_state s u) = Some d \<and>
          weather (merge_state s u) = Some w \<longrightarrow>
          st = Completed \<and>
          (\<exists>secs. sections s2 = Some secs \<and>
             final_plan sf = Some (plan_llm env c d w (py_join [CHR 0x0A, CHR 0x0A] secs) fbp)))))"
proof (intro impI)
  assume a: "(human_feedback_traveler (merge_state s u) = None \<or>
     human_feedback_traveler (merge_state s u) = Some []) \<and>
    travelers (merge_state s u) = Some ts \<and> ts \<noteq> []"
  then have fb: "human_feedback_traveler (merge_state s u) = None \<or>
     human_feedback_traveler (merge_state s u) = Some []"
    and ts: "travelers (merge_state s u) = Some ts" "ts \<noteq> []"
    by blast+
  define s0 where "s0 = merge_state s u"
  from resume_fan_out [OF fb ts, of env rest] obtain sends secs where
    len: "length sends = length ts"
    and run: "run_graph env (u # rest) [Run ''human_feedback_traveler_node''] s =
       (case write_plan env (s0
              \<lparr>sections := Some ((case sections s0 of None \<Rightarrow> [] | Some ys \<Rightarrow> ys) @ secs)\<rparr>) of
          Inl e \<Rightarrow>
            ([([Run ''human_feedback_traveler_node''], s0),
              (map Spawn sends, s0),
              ([Run ''write_plan''], s0
                 \<lparr>sections := Some ((case sections s0 of None \<Rightarrow> [] | Some ys \<Rightarrow> ys) @ secs)\<rparr>)],
             s0\<lparr>sections := Some ((case sections s0 of None \<Rightarrow> [] | Some ys \<Rightarrow> ys) @ secs)\<rparr>,
             Failed ''write_plan'' e)
        | Inr up \<Rightarrow>
            ([([Run ''human_feedback_traveler_node''], s0),
              (map Spawn sends, s0),
              ([Run ''write_plan''], s0
                 \<lparr>sections := Some ((case sections s0 of None \<Rightarrow> [] | Some ys \<Rightarrow> ys) @ secs)\<rparr>)],
             merge_state (s0
                 \<lparr>sections := Some ((case sections s0 of None \<Rightarrow> [] | Some ys \<Rightarrow> ys) @ secs)\<rparr>) up,
             Completed))"
    unfolding s0_def by blast
  define all_secs where "all_secs = (case sections s0 of None \<Rightarrow> [] | Some ys \<Rightarrow> ys) @ secs"
  define s2 where "s2 = s0\<lparr>sections := Some all_secs\<rparr>"
  note run' = run [folded all_secs_def, folded s2_def]
  obtain sf st where res:
    "run_graph env (u # rest) [Run ''human_feedback_traveler_node''] s =
         ([([Run ''human_feedback_traveler_node''], s0), (map Spawn sends, s0),
           ([Run ''write_plan''], s2)], sf, st)"
    using run' by (cases "write_plan env s2") auto
  have fin: "st = Completed \<and>
          (\<exists>secs. sections s2 = Some secs \<and>
             final_plan sf = Some (plan_llm env c d w (py_join [CHR 0x0A, CHR 0x0A] secs) fbp))"
    if h: "human_feedback_plan s0 = Some fbp \<and> city s0 = Some c \<and> days s0 = Some d \<and>
          weather s0 = Some w" for fbp c d w
  proof -
    have wp: "write_plan env s2 =
        Inr (no_update\<lparr>up_final_plan := Some (plan_llm env c d w (py_join [CHR 0x0A, CHR 0x0A] all_secs) fbp)\<rparr>)"
      using h by (simp add: write_plan_def s2_def)
    from run' res wp have "st = Completed"
      and "sf = merge_state s2 (no_update\<lparr>up_final_plan :=
              Some (plan_llm env c d w (py_join [CHR 0x0A, CHR 0x0A] all_secs) fbp)\<rparr>)"
      by simp_all
    then show ?thesis
      by (simp add: merge_state_def no_update_def replace_field_def s2_def)
  qed
  show "\<exists>sends s2 sf st.
       run_graph env (u # rest) [Run ''human_feedback_traveler_node''] s =
         ([([Run ''human_feedback_traveler_node''], merge_state s u),
           (map Spawn sends, merge_state s u),
           ([Run ''write_plan''], s2)], sf, st) \<and>
       length sends = length ts \<and>
       (\<forall>fbp c d w. human_feedback_plan (merge_state s u) = Some fbp \<and>
          city (merge_state s u) = Some c \<and> days (merge_state s u) = Some d \<and>
          weather (merge_state s u) = Some w \<longrightarrow>
          st = Completed \<and>
          (\<exists>secs. sections s2 = Some secs \<and>
             final_plan sf = Some (plan_llm env c d w (py_join [CHR 0x0A, CHR 0x0A] secs) fbp)))"
    using res len fin unfolding s0_def [symmetric]
    by (intro exI [of _ sends] exI [of _ s2] exI [of _ sf] exI [of _ st]) blast
qed

text \<open>
  C1, as the compiled graph has it. \<open>initiate_all_plans\<close> answers the terminal marker
  when the plan feedback is empty or absent and \<open>write_plan\<close> otherwise, but neither it
  nor \<open>feedback_plan\<close> is the end of an edge, the source of a conditional edge or an
  interrupt: the only edge out of \<open>conduct_dialogue_sub\<close> leads to \<open>write_plan\<close>. So
  after a fan-out over at least one traveler the step that follows the sub-executions
  is \<open>write_plan\<close>, whatever the plan feedback holds; and with plan feedback present,
  be it the empty text, and \<open>days\<close>, \<open>city\<close> and \<open>weather\<close> set, the run completes with
  a final plan.
\<close>

theorem plan_written_after_fan_out:
  "initiate_all_plans s =
     (if human_feedback_plan s = None \<or> human_feedback_plan s = Some [] then END else ''write_plan'') \<and>
   ''initiate_all_plans'' \<notin> set (map fst main_edges) \<union> set (map snd main_edges) \<union>
      set conditional_sources \<union> set interrupt_before \<and>
   ''feedback_plan'' \<notin> set (map fst main_edges) \<union> set (map snd main_edges) \<union>
      set conditional_sources \<union> set interrupt_before \<and>
   successors ''conduct_dialogue_sub'' = [''write_plan''] \<and>
   ((human_feedback_traveler (merge_state s u) = None \<or>
     human_feedback_traveler (merge_state s u) = Some []) \<and>
    travelers (merge_state s u) = Some ts \<and> ts \<noteq> [] \<longrightarrow>
    (\<exists>sends s2 sf st.
       run_graph env (u # rest) [Run ''human_feedback_traveler_node''] s =
         ([([Run ''human_feedback_traveler_node''], merge_state s u),
           (map Spawn sends, merge_state s u),
           ([Run ''write_plan''], s2)], sf, st) \<and>
       length sends = length ts \<and>
       (\<forall>fbp c d w. human_feedback_plan (merge_state s u) = Some fbp \<and>
          city (merge_state s u) = Some c \<and> days (merge_state s u) = Some d \<and>
          weather (merge_state s u) = Some w \<longrightarrow>
          st = Completed \<and>
          (\<exists>secs. sections s2 = Some secs \<and>
             final_plan sf = Some (plan_llm env c d w (py_join [CHR 0x0A, CHR 0x0A] secs) fbp)))))"
  using initiate_all_plans_cases [of s] plan_router_not_wired successors_values(5)
    fan_out_then_plan [of s u ts env rest]
  by (intro conjI)

theorem plan_written_after_fan_out_witness:
  "\<exists>sends s2 sf.
     run_graph example_env [no_update] [Run ''human_feedback_traveler_node'']
         (at_interrupt\<lparr>human_feedback_plan := Some []\<rparr>) =
       ([([Run ''human_feedback_traveler_node''], at_interrupt\<lparr>human_feedback_plan := Some []\<rparr>),
         (map Spawn sends, at_interrupt\<lparr>human_feedback_plan := Some []\<rparr>),
         ([Run ''write_plan''], s2)], sf, Completed) \<and>
     final_plan sf = Some ''Day 1''"
proof -
  define s where "s = at_interrupt\<lparr>human_feedback_plan := Some []\<rparr>"
  have m: "merge_state s no_update = s"
    by (rule merge_state_no_update)
  have pre: "(human_feedback_traveler (merge_state s no_update) = None \<or>
        human_feedback_traveler (merge_state s no_update) = Some []) \<and>
      travelers (merge_state s no_update) = Some [alice, bob] \<and> [alice, bob] \<noteq> []"
    unfolding m by (simp add: s_def at_interrupt_def kyoto_def)
  have fields: "human_feedback_plan s = Some [] \<and> city s = Some ''Kyoto'' \<and> days s = Some 3 \<and>
      weather s = Some []"
    by (simp add: s_def at_interrupt_def kyoto_def)
  from plan_written_after_fan_out [of s no_update "[alice, bob]" example_env "[]"] pre
  obtain sends s2 sf st where
    run: "run_graph example_env [no_update] [Run ''human_feedback_traveler_node''] s =
         ([([Run ''human_feedback_traveler_node''], s), (map Spawn sends, s),
           ([Run ''write_plan''], s2)], sf, st)"
    and fin: "\<forall>fbp c d w. human_feedback_plan s = Some fbp \<and>
          city s = Some c \<and> days s = Some d \<and> weather s = Some w \<longrightarrow>
          st = Completed \<and>
          (\<exists>secs. sections s2 = Some secs \<and>
             final_plan sf = Some (plan_llm example_env c d w (py_join [CHR 0x0A, CHR 0x0A] secs) fbp))"
    unfolding m by blast
  from fin fields have "st = Completed" and "final_plan sf = Some ''Day 1''"
    by (auto simp: example_env_def)
  with run show ?thesis unfolding s_def by blast
qed

theorem no_op_terminal_counterexample:
  "Run ''write_plan'' \<in> set (concat (map fst (fst (start_run example_env [no_update] kyoto)))) \<and>
   Run ''write_plan'' \<in> set (concat (map fst (fst (start_run example_env [no_update]
       (kyoto\<lparr>human_feedback_plan := Some []\<rparr>))))) \<and>
   snd (snd (start_run example_env [no_update] (kyoto\<lparr>human_feedback_plan := Some []\<rparr>))) = Completed \<and>
   final_plan (fst (snd (start_run example_env [no_update] (kyoto\<lparr>human_feedback_plan := Some []\<rparr>))))
     = Some ''Day 1''"
proof -
  have run: "Run ''write_plan'' \<in> set (concat (map fst (fst (start_run example_env [no_update] s)))) \<and>
      (human_feedback_plan s = Some [] \<longrightarrow>
         snd (snd (start_run example_env [no_update] s)) = Completed \<and>
         final_plan (fst (snd (start_run example_env [no_update] s))) = Some ''Day 1'')"
    if s: "city s = Some ''Kyoto''" "days s = Some 3" "max_travelers s = Some 2"
      "human_feedback_traveler s = None" for s :: "rat TravelGraphState"
  proof -
    define w where "w = get_weather example_env ''Kyoto'' 3"
    define sB where "sB = s\<lparr>weather := Some w, travelers := Some [alice, bob]\<rparr>"
    have tv: "travelers_llm example_env c0 w0 d0 f0 m0 = [alice, bob]" for c0 w0 d0 f0 m0
      by (simp add: example_env_def)
    have st: "start_run example_env [no_update] s =
        (case run_graph example_env [no_update] [Run ''human_feedback_traveler_node''] sB of
           (tr, sf, st) \<Rightarrow>
             (([Run ''get_weather_info''], s) #
              ([Run ''create_travelers''], s\<lparr>weather := Some w\<rparr>) # tr, sf, st))"
      using start_run_to_interrupt [OF s(1,2,3), of example_env "[no_update]"]
      by (simp add: tv sB_def w_def)
    have m: "merge_state sB no_update = sB"
      by (rule merge_state_no_update)
    have pre: "(human_feedback_traveler (merge_state sB no_update) = None \<or>
        human_feedback_traveler (merge_state sB no_update) = Some []) \<and>
      travelers (merge_state sB no_update) = Some [alice, bob] \<and> [alice, bob] \<noteq> []"
      unfolding m using s(4) by (simp add: sB_def)
    from fan_out_then_plan [of sB no_update "[alice, bob]" example_env "[]"] pre
    obtain sends s2 sf st where
      run: "run_graph example_env [no_update] [Run ''human_feedback_traveler_node''] sB =
         ([([Run ''human_feedback_traveler_node''], sB), (map Spawn sends, sB),
           ([Run ''write_plan''], s2)], sf, st)"
      and fin: "\<forall>fbp c d w. human_feedback_plan sB = Some fbp \<and>
          city sB = Some c \<and> days sB = Some d \<and> weather sB = Some w \<longrightarrow>
          st = Completed \<and>
          (\<exists>secs. sections s2 = Some secs \<and>
             final_plan sf = Some (plan_llm example_env c d w (py_join [CHR 0x0A, CHR 0x0A] secs) fbp))"
      unfolding m by blast
    have 1: "Run ''write_plan'' \<in> set (concat (map fst (fst (start_run example_env [no_update] s))))"
      by (simp add: st run)
    have 2: "snd (snd (start_run example_env [no_update] s)) = Completed \<and>
         final_plan (fst (snd (start_run example_env [no_update] s))) = Some ''Day 1''"
      if "human_feedback_plan s = Some []"
    proof -
      from that s have "human_feedback_plan sB = Some [] \<and> city sB = Some ''Kyoto'' \<and>
          days sB = Some 3 \<and> weather sB = Some w"
        by (simp add: sB_def)
      with fin have "st = Completed" and "final_plan sf = Some ''Day 1''"
        by (auto simp: example_env_def)
      then show ?thesis by (simp add: st run)
    qed
    from 1 2 show ?thesis by blast
  qed
  from run [of kyoto] run [of "kyoto\<lparr>human_feedback_plan := Some []\<rparr>"]
  show ?thesis by (simp add: kyoto_def)
qed

section \<open>The plan node and its feedback key\<close>

lemma run_task_plan_feedback:
  assumes "run_task env s t = Inr up"
  shows "up_human_feedback_plan up = None"
proof (cases t)
  case (Run n)
  with assms have "node_body env n s = Inr up" by simp
  then show ?thesis
    by (auto simp: node_body_def get_weather_info_def create_travelers_def feedback_traveler_def
        write_plan_def no_update_def Let_def split: if_splits option.splits)
next
  case (Spawn sd)
  with assms show ?thesis
    by (auto simp: no_update_def split: sum.splits prod.splits)
qed

lemma run_tasks_plan_feedback:
  assumes "run_tasks env s fr = Inr us"
  shows "\<forall>up\<in>set us. up_human_feedback_plan up = None"
  using assms
proof (induction fr arbitrary: us)
  case Nil
  then show ?case by simp
next
  case (Cons t fr)
  then obtain up us' where "run_task env s t = Inr up" "run_tasks env s fr = Inr us'" "us = up # us'"
    by (auto split: sum.splits)
  with Cons.IH run_task_plan_feedback show ?case by auto
qed

lemma merge_state_plan_feedback:
  "up_human_feedback_plan up = None \<Longrightarrow>
     human_feedback_plan (merge_state s up) = human_feedback_plan s"
  by (simp add: merge_state_def replace_field_def)

lemma fold_merge_plan_feedback:
  assumes "\<forall>up\<in>set us. up_human_feedback_plan up = None"
  shows "human_feedback_plan (fold (\<lambda>u st. merge_state st u) us s) = human_feedback_plan s"
  using assms by (induction us arbitrary: s) (simp_all add: merge_state_plan_feedback)

lemma exec_step_plan_feedback:
  assumes "exec_step env fr s = Inr s1"
  shows "human_feedback_plan s1 = human_feedback_plan s"
proof -
  from assms obtain us where us: "run_tasks env s fr = Inr us"
    and s1: "s1 = fold (\<lambda>u st. merge_state st u) us s"
    by (auto simp: exec_step_def split: sum.splits)
  from run_tasks_plan_feedback [OF us] s1 show ?thesis
    by (simp add: fold_merge_plan_feedback)
qed

lemma run_graph_plan_feedback:
  assumes "human_feedback_plan s = None" "\<forall>up\<in>set ins. up_human_feedback_plan up = None"
  shows "\<forall>step\<in>set (fst (run_graph env ins fr s)). human_feedback_plan (snd step) = None"
  using assms
proof (induction env ins fr s rule: run_graph.induct)
  case (1 env ins fr s)
  show ?case
  proof (cases "fr = [] \<or> (interrupted fr \<and> ins = [])")
    case True
    then show ?thesis by (subst run_graph.simps) auto
  next
    case False
    then have ne: "fr \<noteq> []" and ni: "\<not> (interrupted fr \<and> ins = [])" by auto
    define s0 where "s0 = (if interrupted fr then merge_state s (hd ins) else s)"
    define ins' where "ins' = (if interrupted fr then tl ins else ins)"
    have h0: "human_feedback_plan s0 = None"
    proof (cases "interrupted fr")
      case True
      with ni have "hd ins \<in> set ins" by simp
      with "1.prems" True show ?thesis
        by (simp add: s0_def merge_state_plan_feedback)
    next
      case False
      with "1.prems" show ?thesis by (simp add: s0_def)
    qed
    have "set (tl ins) \<subseteq> set ins" by (cases ins) auto
    then have ins': "\<forall>up\<in>set ins'. up_human_feedback_plan up = None"
      using "1.prems"(2) by (auto simp: ins'_def)
    show ?thesis
    proof (cases "exec_step env fr s0")
      case (Inl x)
      then show ?thesis
        using h0 by (subst run_graph_step [OF ne ni]) (auto simp: s0_def split: prod.splits)
    next
      case (Inr s1)
      from exec_step_plan_feedback [OF Inr] h0 have h1: "human_feedback_plan s1 = None" by simp
      from "1.IH" [OF ne ni s0_def Inr h1] ins'
      have "\<forall>step\<in>set (fst (run_graph env ins' (next_frontier s1 fr) s1)).
              human_feedback_plan (snd step) = None"
        by (simp add: ins'_def)
      then show ?thesis
        using h0 Inr
        by (subst run_graph_step [OF ne ni]) (auto simp: s0_def ins'_def split: prod.splits)
    qed
  qed
qed

text \<open>
  C10. \<open>write_plan\<close> indexes \<open>days\<close>, \<open>sections\<close>, \<open>city\<close>, \<open>weather\<close> and
  \<open>human_feedback_plan\<close> directly: with any of them absent it raises \<open>KeyError\<close>, for
  the first absent key in that order, and with all of them present it returns the plan.
  No task of the main graph writes \<open>human_feedback_plan\<close>. So in a run that starts
  without the key and in which the caller never supplies it, every step reads a state
  without it, and a step that holds \<open>write_plan\<close> finds the node raising \<open>KeyError\<close>
  rather than taking the feedback to be empty.
\<close>

theorem write_plan_key_error:
  "(days s = None \<or> sections s = None \<or> city s = None \<or> weather s = None \<or>
    human_feedback_plan s = None \<longrightarrow>
      (\<exists>k. write_plan env s = Inl (KeyError k) \<and>
         k \<in> {''days'', ''sections'', ''city'', ''weather'', ''human_feedback_plan''})) \<and>
   (days s \<noteq> None \<and> sections s \<noteq> None \<and> city s \<noteq> None \<and> weather s \<noteq> None \<and>
    human_feedback_plan s = None \<longrightarrow>
      write_plan env s = Inl (KeyError ''human_feedback_plan'')) \<and>
   (days s \<noteq> None \<and> sections s \<noteq> None \<and> city s \<noteq> None \<and> weather s \<noteq> None \<and>
    human_feedback_plan s \<noteq> None \<longrightarrow> (\<exists>up. write_plan env s = Inr up)) \<and>
   (\<forall>t up. run_task env s t = Inr up \<longrightarrow> up_human_feedback_plan up = None) \<and>
   (human_feedback_plan s = None \<and> (\<forall>up\<in>set ins. up_human_feedback_plan up = None) \<longrightarrow>
      (\<forall>step\<in>set (fst (run_graph env ins fr s)).
         human_feedback_plan (snd step) = None \<and>
         (\<exists>k. run_task env (snd step) (Run ''write_plan'') = Inl (KeyError k))))"
proof (intro conjI impI allI)
  assume "days s = None \<or> sections s = None \<or> city s = None \<or> weather s = None \<or>
    human_feedback_plan s = None"
  then show "\<exists>k. write_plan env s = Inl (KeyError k) \<and>
         k \<in> {''days'', ''sections'', ''city'', ''weather'', ''human_feedback_plan''}"
    by (auto simp: write_plan_def split: option.splits)
next
  assume "days s \<noteq> None \<and> sections s \<noteq> None \<and> city s \<noteq> None \<and> weather s \<noteq> None \<and>
    human_feedback_plan s = None"
  then show "write_plan env s = Inl (KeyError ''human_feedback_plan'')"
    by (auto simp: write_plan_def split: option.splits)
next
  assume "days s \<noteq> None \<and> sections s \<noteq> None \<and> city s \<noteq> None \<and> weather s \<noteq> None \<and>
    human_feedback_plan s \<noteq> None"
  then show "\<exists>up. write_plan env s = Inr up"
    by (auto simp: write_plan_def split: option.splits)
next
  fix t up assume "run_task env s t = Inr up"
  then show "up_human_feedback_plan up = None" by (rule run_task_plan_feedback)
next
  assume a: "human_feedback_plan s = None \<and> (\<forall>up\<in>set ins. up_human_feedback_plan up = None)"
  show "\<forall>step\<in>set (fst (run_graph env ins fr s)).
         human_feedback_plan (snd step) = None \<and>
         (\<exists>k. run_task env (snd step) (Run ''write_plan'') = Inl (KeyError k))"
  proof
    fix step assume "step \<in> set (fst (run_graph env ins fr s))"
    moreover from a have "human_feedback_plan s = None"
      and "\<forall>up\<in>set ins. up_human_feedback_plan up = None" by blast+
    then have "\<forall>step\<in>set (fst (run_graph env ins fr s)). human_feedback_plan (snd step) = None"
      by (rule run_graph_plan_feedback)
    ultimately have h: "human_feedback_plan (snd step) = None" by blast
    then have "\<exists>k. write_plan env (snd step) = Inl (KeyError k)"
      by (auto simp: write_plan_def split: option.splits)
    with h show "human_feedback_plan (snd step) = None \<and>
         (\<exists>k. run_task env (snd step) (Run ''write_plan'') = Inl (KeyError k))"
      by (simp add: node_body_values)
  qed
qed

theorem write_plan_key_error_witness:
  "write_plan example_env ready_for_plan = Inl (KeyError ''human_feedback_plan'') \<and>
   (\<exists>k. write_plan example_env kyoto = Inl (KeyError k)) \<and>
   (\<exists>up. write_plan example_env (ready_for_plan\<lparr>human_feedback_plan := Some []\<rparr>) = Inr up) \<and>
   human_feedback_plan (snd (hd (fst (start_run example_env [no_update] kyoto)))) = None"
proof -
  have 1: "write_plan example_env ready_for_plan = Inl (KeyError ''human_feedback_plan'')"
    using write_plan_key_error [of ready_for_plan example_env "[]" "[]"]
    by (simp add: ready_for_plan_def kyoto_def)
  have 2: "\<exists>k. write_plan example_env kyoto = Inl (KeyError k)"
    using write_plan_key_error [of kyoto example_env "[]" "[]"]
    by (simp add: kyoto_def) blast
  have 3: "\<exists>up. write_plan example_env (ready_for_plan\<lparr>human_feedback_plan := Some []\<rparr>) = Inr up"
    using write_plan_key_error [of "ready_for_plan\<lparr>human_feedback_plan := Some []\<rparr>" example_env "[]" "[]"]
    by (simp add: ready_for_plan_def kyoto_def)
  have st: "fst (start_run example_env [no_update] kyoto) \<noteq> []"
    using start_run_to_interrupt [of kyoto "''Kyoto''" 3 2 example_env "[no_update]"]
    by (simp add: kyoto_def split: prod.splits)
  have "\<forall>step\<in>set (fst (start_run example_env [no_update] kyoto)).
          human_feedback_plan (snd step) = None"
    using write_plan_key_error [of kyoto example_env "[no_update]" "map Run (successors START)"]
    by (simp add: start_run_def kyoto_def no_update_def)
  with st have 4: "human_feedback_plan (snd (hd (fst (start_run example_env [no_update] kyoto)))) = None"
    by simp
  from 1 2 3 4 show ?thesis by blast
qed

section \<open>The weather lookup degrades to a marker\<close>

lemma get_weather_failure:
  "get_weather env c n =
     (if OPENWEATHER_KEY env = [] then [ErrorMarker ''OpenWeather API key not set'']
      else (case weather_try env c n of
              Inl e \<Rightarrow> [ErrorMarker (''Failed to get weather information: '' @ exn_str e)]
            | Inr out \<Rightarrow> out))"
  by (simp add: get_weather_def)

text \<open>
  C8. \<open>get_weather\<close> is a total function into lists, so nothing it does raises. With
  the API key unset, and with any exception leaving its \<open>try\<close> block (the geocoder
  failing or finding nothing, the coordinates not parsing, the forecast service
  failing, the aggregation failing), the result is a one-element list holding an error
  marker. \<open>get_weather_info\<close> never raises either; it puts whatever \<open>get_weather\<close>
  returned under \<open>weather\<close>, the step of the graph that runs it succeeds, and
  \<open>create_travelers\<close> hands that list on unchanged.
\<close>

theorem weather_lookup_degrades:
  "(OPENWEATHER_KEY env = [] \<longrightarrow>
      get_weather env c n = [ErrorMarker ''OpenWeather API key not set'']) \<and>
   (\<forall>e. OPENWEATHER_KEY env \<noteq> [] \<and> weather_try env c n = Inl e \<longrightarrow>
      get_weather env c n = [ErrorMarker (''Failed to get weather information: '' @ exn_str e)]) \<and>
   (\<forall>e. nominatim env c = Inl e \<longrightarrow> weather_try env c n = Inl e) \<and>
   (nominatim env c = Inr [] \<longrightarrow>
      weather_try env c n =
        Inl (ValueError (''Cannot resolve coordinates for '' @ [CHR 0x27] @ c @ [CHR 0x27]))) \<and>
   (\<forall>latlon e. get_latlon env c = Inr latlon \<and>
      unpack2 (py_float env) (py_split CHR '','' latlon) = Inl e \<longrightarrow> weather_try env c n = Inl e) \<and>
   (\<forall>latlon lat lon e. get_latlon env c = Inr latlon \<and>
      unpack2 (py_float env) (py_split CHR '','' latlon) = Inr (lat, lon) \<and>
      forecast env lat lon = Inl e \<longrightarrow> weather_try env c n = Inl e) \<and>
   (\<forall>latlon lat lon data e. get_latlon env c = Inr latlon \<and>
      unpack2 (py_float env) (py_split CHR '','' latlon) = Inr (lat, lon) \<and>
      forecast env lat lon = Inr data \<and> aggregate env n data = Inl e \<longrightarrow>
      weather_try env c n = Inl e) \<and>
   get_weather_info env s =
     no_update\<lparr>up_weather := Some (get_weather env (case city s of None \<Rightarrow> ''tokyo'' | Some c \<Rightarrow> c)
                                       (case days s of None \<Rightarrow> 5 | Some d \<Rightarrow> d))\<rparr> \<and>
   weather (merge_state s (get_weather_info env s)) =
     Some (get_weather env (case city s of None \<Rightarrow> ''tokyo'' | Some c \<Rightarrow> c)
             (case days s of None \<Rightarrow> 5 | Some d \<Rightarrow> d)) \<and>
   exec_step env [Run ''get_weather_info''] s = Inr (merge_state s (get_weather_info env s)) \<and>
   (\<forall>c' w d mt. city s = Some c' \<and> weather s = Some w \<and> days s = Some d \<and>
      max_travelers s = Some mt \<longrightarrow>
      create_travelers env s =
        Inr (no_update\<lparr>up_travelers := Some (travelers_llm env c' w d
               (case human_feedback_traveler s of None \<Rightarrow> [] | Some f \<Rightarrow> f) mt)\<rparr>))"
  by (auto simp: get_weather_failure weather_try_def get_latlon_def get_weather_info_def
      merge_state_def no_update_def replace_field_def exec_step_single node_body_values
      create_travelers_def Let_def)

theorem weather_lookup_degrades_witness:
  "get_weather (example_env\<lparr>OPENWEATHER_KEY := []\<rparr>) ''Kyoto'' 3 =
     [ErrorMarker ''OpenWeather API key not set''] \<and>
   get_weather (example_env\<lparr>nominatim := (\<lambda>c. Inl (RequestError ''timed out''))\<rparr>) ''Kyoto'' 3 =
     [ErrorMarker ''Failed to get weather information: timed out''] \<and>
   weather (merge_state kyoto
       (get_weather_info (example_env\<lparr>nominatim := (\<lambda>c. Inr [])\<rparr>) kyoto)) =
     Some [ErrorMarker (''Failed to get weather information: Cannot resolve coordinates for ''
             @ [CHR 0x27] @ ''Kyoto'' @ [CHR 0x27])]"
proof -
  define env1 where "env1 = example_env\<lparr>OPENWEATHER_KEY := []\<rparr>"
  define env2 where "env2 = example_env\<lparr>nominatim := (\<lambda>c. Inl (RequestError ''timed out''))\<rparr>"
  define env3 where "env3 = example_env\<lparr>nominatim := (\<lambda>c. Inr [])\<rparr>"
  define msg where "msg = ''Cannot resolve coordinates for '' @ [CHR 0x27] @ ''Kyoto'' @ [CHR 0x27]"
  have k1: "OPENWEATHER_KEY env1 = []" by (simp add: env1_def)
  from weather_lookup_degrades [of env1 "''Kyoto''" 3 kyoto] k1
  have 1: "get_weather env1 ''Kyoto'' 3 = [ErrorMarker ''OpenWeather API key not set'']"
    by blast
  have k2: "OPENWEATHER_KEY env2 \<noteq> []" and n2: "nominatim env2 ''Kyoto'' = Inl (RequestError ''timed out'')"
    by (simp_all add: env2_def example_env_def)
  from weather_lookup_degrades [of env2 "''Kyoto''" 3 kyoto] n2
  have w2: "weather_try env2 ''Kyoto'' 3 = Inl (RequestError ''timed out'')" by blast
  from weather_lookup_degrades [of env2 "''Kyoto''" 3 kyoto] k2 w2
  have "get_weather env2 ''Kyoto'' 3 =
      [ErrorMarker (''Failed to get weather information: '' @ exn_str (RequestError ''timed out''))]"
    by blast
  then have 2: "get_weather env2 ''Kyoto'' 3 =
      [ErrorMarker ''Failed to get weather information: timed out'']"
    by simp
  have k3: "OPENWEATHER_KEY env3 \<noteq> []" and n3: "nominatim env3 ''Kyoto'' = Inr []"
    by (simp_all add: env3_def example_env_def)
  from weather_lookup_degrades [of env3 "''Kyoto''" 3 kyoto] n3
  have w3: "weather_try env3 ''Kyoto'' 3 = Inl (ValueError msg)"
    unfolding msg_def by blast
  from weather_lookup_degrades [of env3 "''Kyoto''" 3 kyoto] k3 w3
  have g3: "get_weather env3 ''Kyoto'' 3 =
      [ErrorMarker (''Failed to get weather information: '' @ exn_str (ValueError msg))]"
    by blast
  from weather_lookup_degrades [of env3 "''Kyoto''" 3 kyoto]
  have "weather (merge_state kyoto (get_weather_info env3 kyoto)) =
     Some (get_weather env3 (case city kyoto of None \<Rightarrow> ''tokyo'' | Some c \<Rightarrow> c)
             (case days kyoto of None \<Rightarrow> 5 | Some d \<Rightarrow> d))"
    by blast
  then have 3: "weather (merge_state kyoto (get_weather_info env3 kyoto)) =
     Some [ErrorMarker (''Failed to get weather information: '' @ msg)]"
    using g3 by (simp add: kyoto_def)
  from 1 2 3 show ?thesis
    unfolding env1_def env2_def env3_def msg_def by simp
qed

section \<open>Weather aggregation: properties\<close>

lemma py_max_eq: "xs \<noteq> [] \<Longrightarrow> py_max xs = Inr (Max (set xs))"
proof (cases xs)
  case Nil
  then show "xs \<noteq> [] \<Longrightarrow> ?thesis" by simp
next
  case (Cons x ys)
  have "(\<lambda>y best. if best < y then y else best) = (max :: 'a \<Rightarrow> 'a \<Rightarrow> 'a)"
    by (auto simp: fun_eq_iff max_def)
  then show ?thesis
    using Cons Max.set_eq_fold [of x ys] by simp
qed

lemma py_min_eq: "xs \<noteq> [] \<Longrightarrow> py_min xs = Inr (Min (set xs))"
proof (cases xs)
  case Nil
  then show "xs \<noteq> [] \<Longrightarrow> ?thesis" by simp
next
  case (Cons x ys)
  have "(\<lambda>y best. if y < best then y else best) = (min :: 'a \<Rightarrow> 'a \<Rightarrow> 'a)"
    by (auto simp: fun_eq_iff min_def)
  then show ?thesis
    using Cons Min.set_eq_fold [of x ys] by simp
qed

lemma fold_max_key_first:
  fixes key :: "'a \<Rightarrow> nat"
  defines "step \<equiv> (\<lambda>y best. if key best < key y then y else best)"
  shows "\<exists>pre post. b # xs = pre @ fold step xs b # post \<and>
           (\<forall>z\<in>set pre. key z < key (fold step xs b)) \<and>
           (\<forall>z\<in>set (b # xs). key z \<le> key (fold step xs b))"
proof (induction xs rule: rev_induct)
  case Nil
  show ?case by (intro exI [of _ "[]"]) simp
next
  case (snoc y xs)
  define r where "r = fold step xs b"
  from snoc obtain pre post where
    sp: "b # xs = pre @ r # post" and lt: "\<forall>z\<in>set pre. key z < key r"
    and le: "\<forall>z\<in>set (b # xs). key z \<le> key r"
    unfolding r_def by blast
  have f: "fold step (xs @ [y]) b = (if key r < key y then y else r)"
    by (simp add: r_def step_def)
  show ?case
  proof (cases "key r < key y")
    case True
    have "b # xs @ [y] = (b # xs) @ y # []" by simp
    moreover have "\<forall>z\<in>set (b # xs). key z < key y" using le True by fastforce
    moreover have "\<forall>z\<in>set (b # xs @ [y]). key z \<le> key y" using le True by fastforce
    ultimately show ?thesis
      unfolding f using True by (intro exI [of _ "b # xs"] exI [of _ "[]"]) simp
  next
    case False
    have "b # xs @ [y] = pre @ r # (post @ [y])" using sp by simp
    moreover have "\<forall>z\<in>set (b # xs @ [y]). key z \<le> key r" using le False by auto
    ultimately show ?thesis
      unfolding f using False lt by (intro exI [of _ pre] exI [of _ "post @ [y]"]) simp
  qed
qed

lemma py_max_key_first:
  assumes "xs \<noteq> []"
  shows "\<exists>r pre post. py_max_key key xs = Inr r \<and> xs = pre @ r # post \<and>
           (\<forall>z\<in>set pre. key z < key r) \<and> (\<forall>z\<in>set xs. key z \<le> key r)"
proof -
  from assms obtain b ys where xs: "xs = b # ys" by (cases xs) auto
  from fold_max_key_first [of b ys key] show ?thesis
    unfolding xs by auto
qed

lemma summary_of_first:
  assumes "valid_iter (set_iter env)" and "ds \<noteq> []"
  shows "\<exists>su pre post. summary_of env ds = Inr su \<and> su \<in> set ds \<and>
           (\<forall>d\<in>set ds. count_list ds d \<le> count_list ds su) \<and>
           set_iter env ds = pre @ su # post \<and>
           (\<forall>d\<in>set pre. count_list ds d < count_list ds su)"
proof -
  from assms(1) have s: "set (set_iter env ds) = set ds"
    by (simp add: valid_iter_def)
  with assms(2) have "set_iter env ds \<noteq> []" by auto
  from py_max_key_first [OF this, of "count_list ds"] obtain r pre post where
    r: "py_max_key (count_list ds) (set_iter env ds) = Inr r"
      "set_iter env ds = pre @ r # post"
      "\<forall>z\<in>set pre. count_list ds z < count_list ds r"
      "\<forall>z\<in>set (set_iter env ds). count_list ds z \<le> count_list ds r"
    by blast
  from r(2) s have "r \<in> set ds" by auto
  with r s show ?thesis
    unfolding summary_of_def by blast
qed

lemma add_sample_keys:
  "map fst (add_sample item daily) =
     (if sample_date item \<in> set (map fst daily) then map fst daily
      else map fst daily @ [sample_date item])"
proof -
  have "map fst (map (\<lambda>(k, r). if k = d then (k, f r) else (k, r)) xs) = map fst xs"
    for d :: string and f :: "'a day_rec \<Rightarrow> 'a day_rec" and xs
    by (induction xs) auto
  then show ?thesis
    by (simp add: add_sample_def Let_def)
qed

lemma add_sample_values:
  assumes "(k, r) \<in> set (add_sample item daily)"
  shows "(k \<noteq> sample_date item \<and> (k, r) \<in> set daily) \<or>
         (k = sample_date item \<and>
            (\<exists>r0. ((k, r0) \<in> set daily \<or> (k \<notin> set (map fst daily) \<and> r0 = empty_rec)) \<and>
               r = \<lparr>temps = temps r0 @ [main_temp item],
                     descs = descs r0 @ [weather_description item],
                     pops = pops r0 @ [sample_pop item]\<rparr>))"
  using assms
  by (auto simp: add_sample_def Let_def split: if_splits)

lemma day_rec_of_snoc:
  "day_rec_of (data @ [item]) k =
     (if k = sample_date item
      then \<lparr>temps = temps (day_rec_of data k) @ [main_temp item],
            descs = descs (day_rec_of data k) @ [weather_description item],
            pops = pops (day_rec_of data k) @ [sample_pop item]\<rparr>
      else day_rec_of data k)"
  by (auto simp: day_rec_of_def)

lemma day_rec_of_absent:
  "k \<notin> sample_date ` set data \<Longrightarrow> day_rec_of data k = empty_rec"
  by (auto simp: day_rec_of_def empty_rec_def filter_empty_conv)

lemma group_by_day_spec:
  "distinct (map fst (group_by_day data)) \<and>
   set (map fst (group_by_day data)) = sample_date ` set data \<and>
   (\<forall>(k, r)\<in>set (group_by_day data). r = day_rec_of data k)"
proof (induction data rule: rev_induct)
  case Nil
  show ?case by (simp add: group_by_day_def)
next
  case (snoc item data)
  define daily where "daily = group_by_day data"
  from snoc have d: "distinct (map fst daily)"
    and k: "set (map fst daily) = sample_date ` set data"
    and v: "\<forall>(k, r)\<in>set daily. r = day_rec_of data k"
    unfolding daily_def by blast+
  have g: "group_by_day (data @ [item]) = add_sample item daily"
    by (simp add: group_by_day_def daily_def)
  have 1: "distinct (map fst (add_sample item daily))"
    using d by (simp add: add_sample_keys)
  have 2: "set (map fst (add_sample item daily)) = sample_date ` set (data @ [item])"
    using k by (auto simp: add_sample_keys)
  have 3: "r = day_rec_of (data @ [item]) k'" if "(k', r) \<in> set (add_sample item daily)" for k' r
  proof -
    from add_sample_values [OF that] consider
      (old) "k' \<noteq> sample_date item" "(k', r) \<in> set daily"
    | (new) r0 where "k' = sample_date item"
        "(k', r0) \<in> set daily \<or> (k' \<notin> set (map fst daily) \<and> r0 = empty_rec)"
        "r = \<lparr>temps = temps r0 @ [main_temp item],
               descs = descs r0 @ [weather_description item],
               pops = pops r0 @ [sample_pop item]\<rparr>"
      by blast
    then show ?thesis
    proof cases
      case old
      with v show ?thesis by (auto simp: day_rec_of_snoc)
    next
      case new
      from new(2) have "r0 = day_rec_of data k'"
      proof
        assume "(k', r0) \<in> set daily"
        with v show ?thesis by auto
      next
        assume "k' \<notin> set (map fst daily) \<and> r0 = empty_rec"
        with k day_rec_of_absent [of k' data] show ?thesis by simp
      qed
      with new(1,3) show ?thesis by (simp add: day_rec_of_snoc)
    qed
  qed
  from 1 2 3 show ?case unfolding g by blast
qed

lemma distinct_map_sort_key:
  "distinct (map f (sort_key f xs)) = distinct (map f xs)"
  by (induction xs) (simp_all add: distinct_insort_key)

lemma sorted_keys:
  assumes "distinct (map fst kvs)"
  shows "map fst (sort_key fst kvs) = sorted_list_of_set (set (map fst kvs))"
proof (rule sorted_distinct_set_unique)
  show "sorted (map fst (sort_key fst kvs))" by simp
  show "distinct (map fst (sort_key fst kvs))"
    using assms by (simp add: distinct_map_sort_key)
  show "sorted (sorted_list_of_set (set (map fst kvs)))" by simp
  show "distinct (sorted_list_of_set (set (map fst kvs)))" by simp
  show "set (map fst (sort_key fst kvs)) = set (sorted_list_of_set (set (map fst kvs)))"
    by simp
qed

lemma py_slice_to_nonneg: "0 \<le> n \<Longrightarrow> py_slice_to n xs = take (nat n) xs"
  by (simp add: py_slice_to_def)

lemma day_entry_value:
  assumes "valid_iter (set_iter env)" and "data \<noteq> []"
    and "\<exists>s\<in>set data. sample_date s = d"
  shows "\<exists>su. summary_of env (map weather_description (filter (\<lambda>s. sample_date s = d) data)) = Inr su \<and>
           day_entry env (d, day_rec_of data d) =
             Inr (DayForecast d su
                   (py_round env (Max (main_temp ` {s \<in> set data. sample_date s = d})) 1)
                   (py_round env (Min (main_temp ` {s \<in> set data. sample_date s = d})) 1)
                   (py_round env (Max (sample_pop ` {s \<in> set data. sample_date s = d})) 2))"
proof -
  define day where "day = filter (\<lambda>s. sample_date s = d) data"
  from assms(3) have ne: "day \<noteq> []"
    by (auto simp: day_def filter_empty_conv)
  have sets: "set day = {s \<in> set data. sample_date s = d}"
    by (auto simp: day_def)
  from summary_of_first [OF assms(1), of "map weather_description day"] ne obtain su where
    su: "summary_of env (map weather_description day) = Inr su" by auto
  have t: "py_max (map main_temp day) = Inr (Max (main_temp ` set day))"
    "py_min (map main_temp day) = Inr (Min (main_temp ` set day))"
    "py_max (map sample_pop day) = Inr (Max (sample_pop ` set day))"
    using ne by (simp_all add: py_max_eq py_min_eq)
  show ?thesis
    using su t unfolding sets day_def [symmetric]
    by (simp add: day_entry_def day_rec_of_def day_def [symmetric])
qed

lemma collect_days_all:
  assumes "\<forall>kv\<in>set kvs. \<exists>r. day_entry env kv = Inr r"
  shows "\<exists>out. collect_days env kvs = Inr out \<and> list_all2 (\<lambda>kv r. day_entry env kv = Inr r) kvs out"
  using assms
proof (induction kvs)
  case Nil
  then show ?case by simp
next
  case (Cons kv kvs)
  then obtain r out where "day_entry env kv = Inr r" "collect_days env kvs = Inr out"
    "list_all2 (\<lambda>kv r. day_entry env kv = Inr r) kvs out"
    by auto
  then show ?case by simp
qed

lemma day_entry_date: "day_entry env (k, rec) = Inr r \<Longrightarrow> date r = k"
  by (auto simp: day_entry_def split: sum.splits)

lemma list_all2_dates:
  assumes "list_all2 (\<lambda>kv r. day_entry env kv = Inr r) kvs out"
  shows "map date out = map fst kvs"
  using assms
  by (induction kvs out rule: list_all2_induct) (auto dest: day_entry_date)

lemma list_all2_entries:
  assumes "list_all2 (\<lambda>kv r. day_entry env kv = Inr r) kvs out"
  shows "\<forall>r\<in>set out. \<exists>kv\<in>set kvs. day_entry env kv = Inr r"
  using assms
  by (induction kvs out rule: list_all2_induct) auto

lemma aggregate_spec:
  assumes "valid_iter (set_iter env)" and "0 \<le> n"
  shows "\<exists>out. aggregate env n data = Inr out \<and>
      map date out = take (nat n) (sorted_list_of_set (sample_date ` set data)) \<and>
      (\<forall>r\<in>set out. \<exists>d su.
          r = DayForecast d su
                (py_round env (Max (main_temp ` {s \<in> set data. sample_date s = d})) 1)
                (py_round env (Min (main_temp ` {s \<in> set data. sample_date s = d})) 1)
                (py_round env (Max (sample_pop ` {s \<in> set data. sample_date s = d})) 2) \<and>
          d \<in> sample_date ` set data \<and>
          summary_of env (map weather_description (filter (\<lambda>s. sample_date s = d) data)) = Inr su)"
proof -
  define G where "G = group_by_day data"
  define T where "T = py_slice_to n (sort_key fst G)"
  define mk where "mk = (\<lambda>d su. DayForecast d su
                (py_round env (Max (main_temp ` {s \<in> set data. sample_date s = d})) 1)
                (py_round env (Min (main_temp ` {s \<in> set data. sample_date s = d})) 1)
                (py_round env (Max (sample_pop ` {s \<in> set data. sample_date s = d})) 2))"
  define sm where "sm = (\<lambda>d. summary_of env (map weather_description (filter (\<lambda>s. sample_date s = d) data)))"
  define dates where "dates = sample_date ` set data"
  from group_by_day_spec [of data] have
    d: "distinct (map fst G)" and k: "set (map fst G) = dates"
    and v: "\<forall>(k, r)\<in>set G. r = day_rec_of data k"
    unfolding G_def dates_def by blast+
  have T: "T = take (nat n) (sort_key fst G)"
    using assms(2) by (simp add: T_def py_slice_to_nonneg)
  have keysT: "map fst T = take (nat n) (sorted_list_of_set dates)"
  proof -
    have "map fst T = take (nat n) (map fst (sort_key fst G))"
      unfolding T by (rule take_map [symmetric])
    also have "map fst (sort_key fst G) = sorted_list_of_set (set (map fst G))"
      by (rule sorted_keys [OF d])
    finally show ?thesis unfolding k .
  qed
  have subT: "set T \<subseteq> set G"
    unfolding T using set_take_subset [of "nat n" "sort_key fst G"] by simp
  have entry: "\<exists>su. sm (fst kv) = Inr su \<and> day_entry env kv = Inr (mk (fst kv) su) \<and> fst kv \<in> dates"
    if "kv \<in> set T" for kv
  proof -
    obtain kd r where kv: "kv = (kd, r)" by (cases kv)
    from that subT have in_G: "(kd, r) \<in> set G" unfolding kv by blast
    with v have r: "r = day_rec_of data kd" by auto
    from in_G have "kd \<in> set (map fst G)" by force
    then have kin: "kd \<in> dates" unfolding k .
    then have ex: "\<exists>s\<in>set data. sample_date s = kd" unfolding dates_def by auto
    then have ne: "data \<noteq> []" by auto
    from day_entry_value [OF assms(1) ne ex] obtain su where
      "sm kd = Inr su" "day_entry env (kd, day_rec_of data kd) = Inr (mk kd su)"
      unfolding sm_def mk_def by blast
    with kin show ?thesis unfolding kv r by simp
  qed
  have "\<forall>kv\<in>set T. \<exists>r. day_entry env kv = Inr r"
  proof
    fix kv assume "kv \<in> set T"
    from entry [OF this] show "\<exists>r. day_entry env kv = Inr r" by blast
  qed
  from collect_days_all [OF this] obtain out where
    out: "collect_days env T = Inr out" "list_all2 (\<lambda>kv r. day_entry env kv = Inr r) T out"
    by blast
  have agg: "aggregate env n data = Inr out"
    using out(1) by (simp add: aggregate_def T_def G_def)
  have dts: "map date out = take (nat n) (sorted_list_of_set dates)"
    using list_all2_dates [OF out(2)] keysT by simp
  have each: "\<exists>d su. r = mk d su \<and> d \<in> dates \<and> sm d = Inr su" if "r \<in> set out" for r
  proof -
    from list_all2_entries [OF out(2)] that obtain kv where
      kv: "kv \<in> set T" "day_entry env kv = Inr r"
      by blast
    from entry [OF kv(1)] obtain su where
      "sm (fst kv) = Inr su" "day_entry env kv = Inr (mk (fst kv) su)" "fst kv \<in> dates"
      by blast
    with kv(2) have "r = mk (fst kv) su \<and> fst kv \<in> dates \<and> sm (fst kv) = Inr su" by simp
    then show ?thesis by blast
  qed
  have "\<forall>r\<in>set out. \<exists>d su. r = mk d su \<and> d \<in> dates \<and> sm d = Inr su"
    using each by blast
  with agg dts show ?thesis
    unfolding mk_def sm_def dates_def by (intro exI [of _ out] conjI)
qed

lemma dec_round_values:
  "dec_round (207 / 10) 1 = 207 / 10" "dec_round (182 / 10) 1 = 182 / 10"
  "dec_round (9 / 10) 2 = 9 / 10"
  by (simp_all add: dec_round_def Let_def)

lemma valid_iter_example: "valid_iter (set_iter example_env)"
  by (simp add: valid_iter_def example_env_def)

text \<open>
  C5. The aggregation step of \<open>get_weather\<close>, for a trip length that is not negative
  and any order in which the runtime iterates a set. It returns a list (no exception
  leaves it) with one record per distinct calendar date of the samples, the dates in
  ascending order and cut to the first \<open>days\<close> of them; in the record of a date,
  \<open>temp_max\<close> and \<open>temp_min\<close> are \<open>round(_, 1)\<close> of the largest and smallest temperature
  among the samples of that date, and \<open>pop_max\<close> is \<open>round(_, 2)\<close> of the largest
  precipitation probability among them (a sample without one counting as 0). The
  record of the example: descriptions \<open>rain\<close>, \<open>rain\<close>, \<open>clear\<close>, temperatures 18.2 and
  20.7, probabilities 0.4 and 0.9 give the summary \<open>rain\<close>, 20.7, 18.2 and 0.9; the same
  record comes out of the whole step run on four samples over two dates with a trip
  length of 1. The source names the last field \<open>pop_max\<close>.
\<close>

theorem weather_aggregation:
  "(valid_iter (set_iter env) \<and> 0 \<le> n \<longrightarrow>
     (\<exists>out. aggregate env n data = Inr out \<and>
        map date out = take (nat n) (sorted_list_of_set (sample_date ` set data)) \<and>
        distinct (map date out) \<and> sorted (map date out) \<and>
        (\<forall>r\<in>set out. \<exists>d su.
            r = DayForecast d su
                  (py_round env (Max (main_temp ` {s \<in> set data. sample_date s = d})) 1)
                  (py_round env (Min (main_temp ` {s \<in> set data. sample_date s = d})) 1)
                  (py_round env (Max (sample_pop ` {s \<in> set data. sample_date s = d})) 2) \<and>
            d \<in> sample_date ` set data \<and>
            summary_of env (map weather_description (filter (\<lambda>s. sample_date s = d) data)) = Inr su))) \<and>
   day_entry example_env
     (''2024-05-01'', \<lparr>temps = [182 / 10, 207 / 10], descs = [''rain'', ''rain'', ''clear''],
                       pops = [4 / 10, 9 / 10]\<rparr>) =
     Inr (DayForecast ''2024-05-01'' ''rain'' (207 / 10) (182 / 10) (9 / 10)) \<and>
   aggregate example_env 1 example_samples =
     Inr [DayForecast ''2024-05-01'' ''rain'' (207 / 10) (182 / 10) (9 / 10)]"
proof (intro conjI impI)
  assume a: "valid_iter (set_iter env) \<and> 0 \<le> n"
  then have a1: "valid_iter (set_iter env)" and a2: "0 \<le> n" by blast+
  from aggregate_spec [OF a1 a2, of data] obtain out where
    out: "aggregate env n data = Inr out"
      "map date out = take (nat n) (sorted_list_of_set (sample_date ` set data))"
      "\<forall>r\<in>set out. \<exists>d su.
            r = DayForecast d su
                  (py_round env (Max (main_temp ` {s \<in> set data. sample_date s = d})) 1)
                  (py_round env (Min (main_temp ` {s \<in> set data. sample_date s = d})) 1)
                  (py_round env (Max (sample_pop ` {s \<in> set data. sample_date s = d})) 2) \<and>
            d \<in> sample_date ` set data \<and>
            summary_of env (map weather_description (filter (\<lambda>s. sample_date s = d) data)) = Inr su"
    by blast
  have "distinct (map date out)"
    unfolding out(2) by (rule distinct_take) simp
  moreover have "sorted (map date out)"
    unfolding out(2) by (rule sorted_wrt_take) simp
  ultimately show "\<exists>out. aggregate env n data = Inr out \<and>
        map date out = take (nat n) (sorted_list_of_set (sample_date ` set data)) \<and>
        distinct (map date out) \<and> sorted (map date out) \<and>
        (\<forall>r\<in>set out. \<exists>d su.
            r = DayForecast d su
                  (py_round env (Max (main_temp ` {s \<in> set data. sample_date s = d})) 1)
                  (py_round env (Min (main_temp ` {s \<in> set data. sample_date s = d})) 1)
                  (py_round env (Max (sample_pop ` {s \<in> set data. sample_date s = d})) 2) \<and>
            d \<in> sample_date ` set data \<and>
            summary_of env (map weather_description (filter (\<lambda>s. sample_date s = d) data)) = Inr su)"
    using out by blast
next
  show "day_entry example_env
     (''2024-05-01'', \<lparr>temps = [182 / 10, 207 / 10], descs = [''rain'', ''rain'', ''clear''],
                       pops = [4 / 10, 9 / 10]\<rparr>) =
     Inr (DayForecast ''2024-05-01'' ''rain'' (207 / 10) (182 / 10) (9 / 10))"
    by (simp add: day_entry_def summary_of_def example_env_def dec_round_def Let_def)
next
  show "aggregate example_env 1 example_samples =
     Inr [DayForecast ''2024-05-01'' ''rain'' (207 / 10) (182 / 10) (9 / 10)]"
    by code_simp
qed

theorem weather_aggregation_witness:
  "\<exists>out. aggregate example_env 2 example_samples = Inr out \<and>
     map date out = take 2 (sorted_list_of_set (sample_date ` set example_samples)) \<and>
     distinct (map date out) \<and> sorted (map date out)"
proof -
  from weather_aggregation [of example_env 2 example_samples] valid_iter_example
  show ?thesis by auto
qed

text \<open>
  C9. The summary of a date. \<open>max\<close> scans the set of the descriptions and keeps the
  first one of the largest count, so the summary is a description of the date, no
  description is more frequent, and every description the scan met before it is
  strictly less frequent. The scan follows the iteration order of the set, which
  Python does not tie to the order of the samples (for strings it changes with the
  hash seed of the process): the summary is determined by the list of descriptions
  together with that order.
\<close>

theorem summary_first_in_scan:
  assumes "valid_iter (set_iter env)" and "ds \<noteq> []"
  shows "\<exists>su pre post. summary_of env ds = Inr su \<and> su \<in> set ds \<and>
           (\<forall>d\<in>set ds. count_list ds d \<le> count_list ds su) \<and>
           set_iter env ds = pre @ su # post \<and>
           (\<forall>d\<in>set pre. count_list ds d < count_list ds su) \<and>
           (\<forall>env' :: 'b env. set_iter env' ds = set_iter env ds \<longrightarrow>
              summary_of env' ds = summary_of env ds)"
proof -
  from summary_of_first [OF assms] obtain su pre post where
    "summary_of env ds = Inr su" "su \<in> set ds"
    "\<forall>d\<in>set ds. count_list ds d \<le> count_list ds su"
    "set_iter env ds = pre @ su # post"
    "\<forall>d\<in>set pre. count_list ds d < count_list ds su"
    by blast
  moreover have "\<forall>env' :: 'b env. set_iter env' ds = set_iter env ds \<longrightarrow>
              summary_of env' ds = summary_of env ds"
    by (simp add: summary_of_def)
  ultimately show ?thesis by blast
qed

theorem summary_first_in_scan_witness:
  "\<exists>su pre post. summary_of example_env [''rain'', ''clear'', ''clear'', ''rain''] = Inr su \<and>
     su \<in> set [''rain'', ''clear'', ''clear'', ''rain''] \<and>
     set_iter example_env [''rain'', ''clear'', ''clear'', ''rain''] = pre @ su # post"
proof -
  have "[''rain'', ''clear'', ''clear'', ''rain''] \<noteq> []" by simp
  from summary_first_in_scan [OF valid_iter_example this, where 'b = rat]
  show ?thesis by blast
qed

theorem summary_tie_counterexample:
  "valid_iter (set_iter example_env) \<and>
   valid_iter (set_iter (example_env\<lparr>set_iter := rev \<circ> remdups\<rparr>)) \<and>
   summary_of example_env [''rain'', ''clear''] = Inr ''rain'' \<and>
   summary_of (example_env\<lparr>set_iter := rev \<circ> remdups\<rparr>) [''rain'', ''clear''] = Inr ''clear''"
  by (simp add: valid_iter_def example_env_def summary_of_def)

end
